theory Spec2Isabelle
  imports Complex_Main
begin

section \<open>Python string primitives\<close>

text \<open>
  A Python \<open>str\<close> is modelled as a \<open>string\<close> whose characters stand for the code points
  0 to 255, one \<open>char\<close> per code point, so that \<open>length\<close> is Python's \<open>len\<close>.
  Whitespace and case folding follow Python's tables on that range.
\<close>

definition is_space :: "char \<Rightarrow> bool" where
  "is_space c =
     (let n = (of_char c :: nat)
      in (9 \<le> n \<and> n \<le> 13) \<or> (28 \<le> n \<and> n \<le> 32) \<or> n = 133 \<or> n = 160)"

definition lower_char :: "char \<Rightarrow> char" where
  "lower_char c =
     (let n = (of_char c :: nat)
      in if (65 \<le> n \<and> n \<le> 90) \<or> (192 \<le> n \<and> n \<le> 222 \<and> n \<noteq> 215)
         then char_of (n + 32) else c)"

text \<open>\<open>s.lower()\<close>\<close>

definition lower :: "string \<Rightarrow> string" where
  "lower s = map lower_char s"

text \<open>\<open>s.strip()\<close>: whitespace removed at both ends.\<close>

definition strip :: "string \<Rightarrow> string" where
  "strip s = rev (dropWhile is_space (rev (dropWhile is_space s)))"

text \<open>
  \<open>s.split()\<close> without argument: the maximal runs of non-whitespace characters, in order;
  never an empty word.
\<close>

function split_ws :: "string \<Rightarrow> string list" where
  "split_ws s =
     (case dropWhile is_space s of
        [] \<Rightarrow> []
      | c # cs \<Rightarrow> takeWhile (\<lambda>x. \<not> is_space x) (c # cs)
                 # split_ws (dropWhile (\<lambda>x. \<not> is_space x) cs))"
  by pat_completeness auto
termination
proof (relation "measure length")
  show "wf (measure length)" by simp
next
  fix s :: string and c cs
  assume h: "dropWhile is_space s = c # cs"
  have "length (dropWhile (\<lambda>x. \<not> is_space x) cs) \<le> length cs"
    by (rule length_dropWhile_le)
  moreover have "length (c # cs) \<le> length s"
    using length_dropWhile_le [of is_space s] h by simp
  ultimately show "(dropWhile (\<lambda>x. \<not> is_space x) cs, s) \<in> measure length"
    by simp
qed

declare split_ws.simps [simp del]

text \<open>\<open>p in s\<close> on strings: \<open>p\<close> occurs in \<open>s\<close> as a contiguous substring.\<close>

fun is_substring :: "string \<Rightarrow> string \<Rightarrow> bool" where
  "is_substring p [] = (p = [])"
| "is_substring p (c # cs) = (take (length p) (c # cs) = p \<or> is_substring p cs)"

text \<open>\<open>s.split('.')\<close> and friends: split at every separator character, keeping empty pieces.\<close>

fun split_char :: "char \<Rightarrow> string \<Rightarrow> string list" where
  "split_char d [] = [[]]"
| "split_char d (c # cs) =
     (if c = d then [] # split_char d cs
      else (case split_char d cs of
              [] \<Rightarrow> [[c]]
            | w # ws \<Rightarrow> (c # w) # ws))"

text \<open>\<open>sep.join(xs)\<close>\<close>

fun join :: "string \<Rightarrow> string list \<Rightarrow> string" where
  "join sep [] = []"
| "join sep [x] = x"
| "join sep (x # y # ys) = x @ sep @ join sep (y # ys)"

text \<open>Truthiness of an optional string argument: \<open>None\<close> and \<open>''\<close> are both false.\<close>

fun truthy :: "string option \<Rightarrow> bool" where
  "truthy None = False"
| "truthy (Some s) = (s \<noteq> [])"


section \<open>Python floats\<close>

text \<open>
  A Python \<open>float\<close> is an IEEE 754 double. A finite double is modelled by the rational
  number it denotes, and an arithmetic operation by the exact operation followed by
  rounding to the nearest double (53 significant bits), a tie going to the even
  significand. The exponent range is left open: the floats computed here are built from
  the length of a list and constants near 1, far from overflow and from the subnormal
  numbers.
\<close>

text \<open>The number of binary digits of a natural number.\<close>

fun bit_length :: "nat \<Rightarrow> nat" where
  "bit_length n = (if n = 0 then 0 else Suc (bit_length (n div 2)))"

declare bit_length.simps [simp del]

text \<open>The binary exponent \<open>e\<close> of a non-zero number: \<open>2 ^ e \<le> |x| < 2 ^ (e + 1)\<close>.\<close>

definition exponent :: "rat \<Rightarrow> int" where
  "exponent x =
     (let a = \<bar>x\<bar>
      in if 1 \<le> a then int (bit_length (nat \<lfloor>a\<rfloor>)) - 1
         else (let j = int (bit_length (nat \<lfloor>1 / a\<rfloor>)) - 1
               in if a = 2 powi (- j) then - j else - j - 1))"

definition round_half_even :: "rat \<Rightarrow> int" where
  "round_half_even m =
     (let f = \<lfloor>m\<rfloor>; r = m - of_int f
      in if r < 1 / 2 then f
         else if 1 / 2 < r then f + 1
         else if even f then f else f + 1)"

definition round_double :: "rat \<Rightarrow> rat" where
  "round_double x =
     (if x = 0 then 0
      else (let ulp = 2 powi (exponent x - 52)
            in of_int (round_half_even (x / ulp)) * ulp))"

text \<open>\<open>float(n)\<close> for an integer, \<open>a * b\<close> and \<open>a - b\<close> on floats.\<close>

definition float_of_int :: "int \<Rightarrow> rat" where
  "float_of_int n = round_double (of_int n)"

definition float_mul :: "rat \<Rightarrow> rat \<Rightarrow> rat" where
  "float_mul a b = round_double (a * b)"

definition float_sub :: "rat \<Rightarrow> rat \<Rightarrow> rat" where
  "float_sub a b = round_double (a - b)"

text \<open>\<open>max(a, b)\<close>: the first argument unless the second is greater.\<close>

definition float_max :: "rat \<Rightarrow> rat \<Rightarrow> rat" where
  "float_max a b = (if a < b then b else a)"

text \<open>The literal \<open>0.1\<close>: the double nearest to one tenth. \<open>0.0\<close> and \<open>1.0\<close> are exact.\<close>

definition point_one :: rat where
  "point_one = round_double (1 / 10)"


section \<open>Refusal handler (refusal\_handler.py)\<close>

datatype RefusalType =
    INSUFFICIENT_CONTEXT
  | NO_RELEVANT_CONTENT
  | SELECTED_TEXT_ONLY_INSUFFICIENT
  | CONTEXT_TOO_BRIEF
  | NO_CONTEXT_PROVIDED
  | HALLUCINATION_PREVENTION

text \<open>The \<open>.value\<close> of each enum member.\<close>

fun refusal_value :: "RefusalType \<Rightarrow> string" where
  "refusal_value INSUFFICIENT_CONTEXT = ''insufficient_context''"
| "refusal_value NO_RELEVANT_CONTENT = ''no_relevant_content''"
| "refusal_value SELECTED_TEXT_ONLY_INSUFFICIENT = ''selected_text_only_insufficient''"
| "refusal_value CONTEXT_TOO_BRIEF = ''context_too_brief''"
| "refusal_value NO_CONTEXT_PROVIDED = ''no_context_provided''"
| "refusal_value HALLUCINATION_PREVENTION = ''hallucination_prevention''"

text \<open>The table \<open>self.refusal_messages\<close>; every member of the enum is a key.\<close>

fun refusal_messages :: "RefusalType \<Rightarrow> string" where
  "refusal_messages INSUFFICIENT_CONTEXT =
     ''I cannot answer this question based on the provided book content. '' @
     ''The retrieved information does not contain sufficient details to provide an accurate response. '' @
     ''Please refer to the relevant sections of the book for the information you need.''"
| "refusal_messages NO_RELEVANT_CONTENT =
     ''I cannot answer this question based on the provided book content. '' @
     ''The retrieved information does not appear to contain relevant information for your query. '' @
     ''Please check the book sections that might contain this information.''"
| "refusal_messages SELECTED_TEXT_ONLY_INSUFFICIENT =
     ''I cannot answer this question based only on the selected text. '' @
     ''The selected portion does not contain sufficient information to address your query. '' @
     ''Please select a broader text segment or refer to other relevant sections of the book.''"
| "refusal_messages CONTEXT_TOO_BRIEF =
     ''I cannot provide an accurate answer based on the provided context, as it is too brief to contain the necessary information. '' @
     ''Please provide more context from the book or refer to the relevant sections directly.''"
| "refusal_messages NO_CONTEXT_PROVIDED =
     ''I cannot answer this question without context from the book. '' @
     ''No relevant book content was provided to answer your query. '' @
     ''Please ensure you have selected text or that the book content is properly indexed.''"
| "refusal_messages HALLUCINATION_PREVENTION =
     ''I cannot answer this question as it requires information not available in the provided book content. '' @
     ''I am designed to answer only from the specific book content provided. '' @
     ''Please consult the book directly for this information.''"

definition get_refusal_message :: "RefusalType \<Rightarrow> string option \<Rightarrow> string" where
  "get_refusal_message refusal_type custom_context =
     (let base_message = refusal_messages refusal_type
      in case custom_context of
           None \<Rightarrow> base_message
         | Some c \<Rightarrow> if c \<noteq> [] then base_message @ '' '' @ c else base_message)"

text \<open>The dictionaries returned by the \<open>generate_*\<close> methods.\<close>

record refusal =
  gen_refusal_type :: string
  gen_message :: string
  gen_query :: "string option"
  gen_should_refuse :: bool

definition generate_context_insufficient_refusal :: "int \<Rightarrow> int \<Rightarrow> refusal" where
  "generate_context_insufficient_refusal context_length min_required_length =
     (let refusal_type =
            (if context_length = 0 then NO_CONTEXT_PROVIDED
             else if context_length < min_required_length then CONTEXT_TOO_BRIEF
             else INSUFFICIENT_CONTEXT)
      in \<lparr> gen_refusal_type = refusal_value refusal_type,
           gen_message = get_refusal_message refusal_type None,
           gen_query = None,
           gen_should_refuse = True \<rparr>)"

definition generate_no_relevant_content_refusal :: "string \<Rightarrow> refusal" where
  "generate_no_relevant_content_refusal q =
     \<lparr> gen_refusal_type = refusal_value NO_RELEVANT_CONTENT,
       gen_message = get_refusal_message NO_RELEVANT_CONTENT None,
       gen_query = Some q,
       gen_should_refuse = True \<rparr>"

text \<open>The dictionary returned by \<open>should_refuse_answer\<close>; \<open>None\<close> is Python's \<open>None\<close>.\<close>

record refusal_decision =
  should_refuse :: bool
  refusal_type :: "string option"
  message :: "string option"
  reason :: "string option"

text \<open>
  \<open>should_refuse_answer(context, query, min_context_length)\<close>. The three checks are tried
  in the order of the source, each returning at once. The call
  \<open>generate_context_insufficient_refusal(0)\<close> of the first check uses the default 50 of
  the second parameter. No statement of the method can raise on string arguments, so the
  model is a total function without an error branch.
\<close>

definition should_refuse_answer :: "string \<Rightarrow> string \<Rightarrow> int \<Rightarrow> refusal_decision" where
  "should_refuse_answer ctx q min_context_length =
     (if ctx = [] \<or> length (strip ctx) = 0 then
        (let r = generate_context_insufficient_refusal 0 50
         in \<lparr> should_refuse = True,
              refusal_type = Some (gen_refusal_type r),
              message = Some (gen_message r),
              reason = Some ''no_context'' \<rparr>)
      else
        (let context_length = int (length (strip ctx))
         in if context_length < min_context_length then
              (let r = generate_context_insufficient_refusal context_length min_context_length
               in \<lparr> should_refuse = True,
                    refusal_type = Some (gen_refusal_type r),
                    message = Some (gen_message r),
                    reason = Some ''context_too_brief'' \<rparr>)
            else
              (let context_lower = lower ctx;
                   query_lower = lower q;
                   query_words = set (split_ws query_lower);
                   context_words = set (split_ws context_lower);
                   common_words = query_words \<inter> context_words
               in if card common_words = 0 \<and> card query_words > 0 then
                    (let r = generate_no_relevant_content_refusal q
                     in \<lparr> should_refuse = True,
                          refusal_type = Some (gen_refusal_type r),
                          message = Some (gen_message r),
                          reason = Some ''no_relevance'' \<rparr>)
                  else
                    \<lparr> should_refuse = False,
                      refusal_type = None,
                      message = None,
                      reason = None \<rparr>)))"


section \<open>Minimum text retriever (min\_text\_retriever.py)\<close>

text \<open>\<open>_calculate_token_count\<close>: the number of whitespace-separated words.\<close>

definition calculate_token_count :: "string \<Rightarrow> int" where
  "calculate_token_count text = int (length (split_ws text))"

definition is_terminal :: "char \<Rightarrow> bool" where
  "is_terminal c = (c = CHR ''.'' \<or> c = CHR ''!'' \<or> c = CHR ''?'')"

text \<open>
  \<open>re.split(r'[.!?]+', text)\<close>: the pieces between maximal runs of terminal punctuation.
  A run at the start or at the end of the text leaves an empty piece there.
\<close>

function re_split_terminal :: "string \<Rightarrow> string list" where
  "re_split_terminal [] = [[]]"
| "re_split_terminal (c # cs) =
     (if is_terminal c then [] # re_split_terminal (dropWhile is_terminal cs)
      else (case re_split_terminal cs of
              [] \<Rightarrow> [[c]]
            | w # ws \<Rightarrow> (c # w) # ws))"
  by pat_completeness auto
termination
proof (relation "measure length")
  show "wf (measure length)" by simp
next
  fix c :: char and cs :: string
  have "length (dropWhile is_terminal cs) \<le> length cs"
    by (rule length_dropWhile_le)
  then show "(dropWhile is_terminal cs, c # cs) \<in> measure length"
    by simp
next
  fix c :: char and cs :: string
  show "(cs, c # cs) \<in> measure length"
    by simp
qed

text \<open>\<open>[s.strip() for s in sentences if s.strip()]\<close>\<close>

definition split_sentences :: "string \<Rightarrow> string list" where
  "split_sentences text = filter (\<lambda>s. s \<noteq> []) (map strip (re_split_terminal text))"

text \<open>
  The inner loop of \<open>_find_relevant_sentences\<close>: one point for every query term (repeated
  terms count again) that occurs in the lowercased sentence.
\<close>

definition sentence_score :: "string list \<Rightarrow> string \<Rightarrow> int" where
  "sentence_score query_terms sentence =
     (let sentence_lower = lower sentence
      in int (length (filter (\<lambda>t. is_substring t sentence_lower) query_terms)))"

text \<open>\<open>xs[:k]\<close>: a negative \<open>k\<close> counts from the end.\<close>

definition slice_to :: "int \<Rightarrow> 'a list \<Rightarrow> 'a list" where
  "slice_to k xs =
     (if 0 \<le> k then take (nat k) xs else take (nat (int (length xs) + k)) xs)"

text \<open>
  The list \<open>top_sentences\<close>. Python's \<open>sort(key=..., reverse=True)\<close> is stable: sentences
  of equal score keep their order; so is \<open>sort_key\<close> on the negated score.
\<close>

definition top_sentences :: "string \<Rightarrow> string \<Rightarrow> int \<Rightarrow> string list" where
  "top_sentences text q max_sentences =
     (let sentences = split_sentences text;
          query_terms = split_ws (lower q);
          scored_sentences = map (\<lambda>sentence. (sentence, sentence_score query_terms sentence)) sentences;
          sorted_sentences = sort_key (\<lambda>x. - snd x) scored_sentences
      in map fst (filter (\<lambda>s. snd s > 0) (slice_to max_sentences sorted_sentences)))"

definition find_relevant_sentences :: "string \<Rightarrow> string \<Rightarrow> int \<Rightarrow> string" where
  "find_relevant_sentences text q max_sentences =
     join ''. '' (top_sentences text q max_sentences) @ ''.''"

text \<open>
  A row of \<open>book_chunks\<close> as the query returns it, each field named after its column
  (\<open>section\<close> is nullable). The column \<open>rank\<close> only orders the rows inside the database
  and is not read afterwards.
\<close>

record chunk =
  chunk_id :: string
  chunk_chapter :: string
  chunk_section :: "string option"
  chunk_title :: string
  chunk_content :: string
  chunk_token_count :: int

text \<open>How an f-string prints a nullable column.\<close>

fun format_opt :: "string option \<Rightarrow> string" where
  "format_opt None = ''None''"
| "format_opt (Some s) = s"

definition source_ref :: "chunk \<Rightarrow> string" where
  "source_ref c = chunk_chapter c @ ''/'' @ format_opt (chunk_section c) @ '' - '' @ chunk_title c"

text \<open>The dictionary \<open>result\<close>.\<close>

record retrieval_result =
  context_text :: string
  sources :: "string list"
  token_count :: int
  selected_text_used :: bool
  query_text :: string
  is_sufficient :: bool

text \<open>
  The database is the one collaborator: whether \<open>psycopg2.connect\<close> succeeds, and, for a
  query text, the rows the cursor fetches, best rank first, or the error it raises.
\<close>

datatype error = ConnectionError | DatabaseError

record database =
  reachable :: bool
  search :: "string \<Rightarrow> error + chunk list"

text \<open>
  The retriever object. The field \<open>connection\<close> tells whether \<open>self.connection\<close> holds an
  open connection (\<open>True\<close>) or \<open>None\<close> (\<open>False\<close>).
\<close>

record retriever =
  db_url :: string
  connection :: bool

text \<open>\<open>connect_to_db\<close>: sets \<open>self.connection\<close>, or raises when the database refuses.\<close>

definition connect_to_db :: "database \<Rightarrow> retriever \<Rightarrow> error + retriever" where
  "connect_to_db db self = (if reachable db then Inr (self\<lparr> connection := True \<rparr>) else Inl ConnectionError)"

definition newlines :: string where
  "newlines = [CHR 0x0A, CHR 0x0A]"

text \<open>
  The loop over \<open>search_results\<close> of \<open>retrieve_minimum_context\<close>, with the dictionary and
  \<open>remaining_tokens\<close> threaded through: \<open>break\<close> returns the dictionary, \<open>continue\<close>
  goes on with the next row.
\<close>

fun process_results :: "string \<Rightarrow> chunk list \<Rightarrow> retrieval_result \<Rightarrow> int \<Rightarrow> retrieval_result" where
  "process_results q [] result remaining_tokens = result"
| "process_results q (c # rest) result remaining_tokens =
     (if remaining_tokens \<le> 0 then result
      else
        (let relevant_excerpt = find_relevant_sentences (chunk_content c) q 3
         in if strip relevant_excerpt = [] then process_results q rest result remaining_tokens
            else
              (let excerpt_token_count = calculate_token_count relevant_excerpt
               in if excerpt_token_count \<le> remaining_tokens then
                    process_results q rest
                      (result\<lparr>
                         context_text :=
                           (if context_text result \<noteq> []
                            then context_text result @ newlines @ relevant_excerpt
                            else relevant_excerpt),
                         token_count := token_count result + excerpt_token_count,
                         sources :=
                           (if source_ref c \<in> set (sources result) then sources result
                            else sources result @ [source_ref c]) \<rparr>)
                      (remaining_tokens - excerpt_token_count)
                  else process_results q rest result remaining_tokens)))"

text \<open>
  The dictionary \<open>result\<close> of \<open>retrieve_minimum_context\<close> after the block
  \<open>if selected_text:\<close>, that is, before the test for the early return.
\<close>

definition selected_text_result :: "string \<Rightarrow> string option \<Rightarrow> int \<Rightarrow> retrieval_result" where
  "selected_text_result q selected_text min_tokens =
     (let result = \<lparr> context_text = [], sources = [], token_count = 0,
                     selected_text_used = truthy selected_text,
                     query_text = q, is_sufficient = False \<rparr>
      in case selected_text of
           None \<Rightarrow> result
         | Some s \<Rightarrow>
             if s \<noteq> [] then
               result\<lparr> context_text := s,
                       token_count := calculate_token_count s,
                       sources := sources result @ [''User Selected Text''],
                       is_sufficient := (calculate_token_count s \<ge> min_tokens) \<rparr>
             else result)"

text \<open>
  \<open>retrieve_minimum_context(query, selected_text, max_tokens, min_tokens)\<close>. The value
  has three components: the dictionary returned or the error raised, the retriever after
  the call, and the query texts sent to the database during the call. The method first
  connects when \<open>self.connection\<close> is not set; a failure there is raised before anything
  else is looked at.
\<close>

definition retrieve_minimum_context ::
  "database \<Rightarrow> retriever \<Rightarrow> string \<Rightarrow> string option \<Rightarrow> int \<Rightarrow> int
     \<Rightarrow> (error + retrieval_result) \<times> retriever \<times> string list" where
  "retrieve_minimum_context db self q selected_text max_tokens min_tokens =
     (case (if \<not> connection self then connect_to_db db self else Inr self) of
        Inl e \<Rightarrow> (Inl e, self, [])
      | Inr self' \<Rightarrow>
          (let result = selected_text_result q selected_text min_tokens
           in if truthy selected_text \<and> token_count result \<le> max_tokens \<and> is_sufficient result
              then (Inr result, self', [])
              else if token_count result < max_tokens then
                (let remaining_tokens = max_tokens - token_count result
                 in case search db q of
                      Inl e \<Rightarrow> (Inl e, self', [q])
                    | Inr search_results \<Rightarrow>
                        (let result2 = process_results q search_results result remaining_tokens
                         in (Inr (result2\<lparr> is_sufficient := (token_count result2 \<ge> min_tokens) \<rparr>),
                             self', [q])))
              else (Inr result, self', [])))"


section \<open>Hallucination prevention (hallucination\_prevention.py)\<close>

definition hallucination_patterns :: "string list" where
  "hallucination_patterns =
     [''according to my training data'', ''i know that'', ''from general knowledge'',
      ''i understand that'', ''most likely'', ''probably'', ''perhaps'', ''maybe'',
      ''could be'', ''might be'', ''i think'', ''in general'', ''typically'', ''usually'',
      ''often'', ''as you know'', ''everyone knows'', ''common knowledge'',
      ''external sources'', ''other places'', ''elsewhere'', ''additionally'',
      ''furthermore'', ''moreover'']"

text \<open>
  Every pattern is a plain phrase without regular-expression operators, so
  \<open>re.search(pattern, s)\<close> is the substring test.
\<close>

record validation_result =
  is_valid :: bool
  hallucination_detected :: bool
  issues :: "string list"
  confidence_score :: rat

definition detect_patterns :: "string \<Rightarrow> string list" where
  "detect_patterns response_lower =
     filter (\<lambda>pattern. is_substring pattern response_lower) hallucination_patterns"

definition potential_hallucination :: "string \<Rightarrow> string" where
  "potential_hallucination sentence =
     ''Potential hallucination: '' @ [CHR 0x27] @ take 100 (strip sentence) @ ''...'' @ [CHR 0x27]"

text \<open>The loop over \<open>response_sentences\<close>, threading \<open>validation_result\<close>.\<close>

fun check_sentences :: "string set \<Rightarrow> string list \<Rightarrow> validation_result \<Rightarrow> validation_result" where
  "check_sentences context_words [] v = v"
| "check_sentences context_words (sentence # rest) v =
     (let sentence_words = set (split_ws (lower sentence))
      in if card sentence_words > 5 then
           (let overlap = sentence_words \<inter> context_words
            in if card overlap = 0 then
                 check_sentences context_words rest
                   (v\<lparr> issues := issues v @ [potential_hallucination sentence],
                       hallucination_detected := True,
                       is_valid := False \<rparr>)
               else check_sentences context_words rest v)
         else check_sentences context_words rest v)"

text \<open>
  \<open>max(0.0, 1.0 - (issue_count * 0.1))\<close>, the last assignment of
  \<open>validate_response_for_hallucinations\<close>, in double arithmetic.
\<close>

definition confidence_for :: "nat \<Rightarrow> rat" where
  "confidence_for issue_count =
     float_max 0 (float_sub 1 (float_mul (float_of_int (int issue_count)) point_one))"

definition validate_response_for_hallucinations :: "string \<Rightarrow> string \<Rightarrow> validation_result" where
  "validate_response_for_hallucinations response ctx =
     (let v0 = \<lparr> is_valid = True, hallucination_detected = False, issues = [],
                  confidence_score = 1 \<rparr>;
          response_lower = lower response;
          detected_patterns = detect_patterns response_lower;
          v1 = (if detected_patterns \<noteq> [] then
                  v0\<lparr> hallucination_detected := True,
                      issues := issues v0 @ detected_patterns,
                      is_valid := False \<rparr>
                else v0);
          v2 = (if ctx \<noteq> [] \<and> response \<noteq> [] then
                  check_sentences (set (split_ws (lower ctx))) (split_char CHR ''.'' response) v1
                else v1);
          issue_count = length (issues v2)
      in v2\<lparr> confidence_score := confidence_for issue_count \<rparr>)"

text \<open>
  The sentence-grounding pass as the specification words it, for comparison with the loop:
  a sentence of more than five distinct lowercased words, none of them a word of the
  context, is unsupported; the pass runs only when answer and context are both non-empty.
\<close>

definition unsupported :: "string set \<Rightarrow> string \<Rightarrow> bool" where
  "unsupported context_words sentence =
     (let sentence_words = set (split_ws (lower sentence))
      in card sentence_words > 5 \<and> card (sentence_words \<inter> context_words) = 0)"

definition unsupported_sentences :: "string \<Rightarrow> string \<Rightarrow> string list" where
  "unsupported_sentences response ctx =
     (if ctx \<noteq> [] \<and> response \<noteq> []
      then filter (unsupported (set (split_ws (lower ctx)))) (split_char CHR ''.'' response)
      else [])"

text \<open>
  \<open>_response_is_contextually_valid\<close>. The quotient of the two word counts is compared
  with 0.3 in exact arithmetic; the comparison of the two doubles gives the same answer
  whenever the answer has fewer than \<open>2 ^ 50\<close> distinct words.
\<close>

definition response_is_contextually_valid :: "string \<Rightarrow> string \<Rightarrow> bool" where
  "response_is_contextually_valid response ctx =
     (if ctx = [] \<or> response = [] then False
      else
        (let response_words = set (split_ws (lower response));
             context_words = set (split_ws (lower ctx));
             common_words = response_words \<inter> context_words
         in if card common_words = 0 then False
            else
              (let overlap_ratio = real (card common_words) / real (card response_words)
               in overlap_ratio \<ge> 3 / 10)))"

text \<open>One round of the loop of \<open>refine_response\<close>: the sentences holding the pattern go.\<close>

definition remove_pattern :: "string \<Rightarrow> string \<Rightarrow> string" where
  "remove_pattern refined_response pattern =
     (let sentences = split_char CHR ''.'' refined_response;
          filtered_sentences =
            map strip (filter (\<lambda>sentence. \<not> is_substring pattern (lower sentence)) sentences)
      in join ''. '' filtered_sentences)"

definition refined :: "string \<Rightarrow> string" where
  "refined response = foldl remove_pattern response hallucination_patterns"

definition refine_response :: "string \<Rightarrow> string \<Rightarrow> string" where
  "refine_response response ctx =
     (let refined_response = refined response
      in if \<not> response_is_contextually_valid refined_response ctx
         then get_refusal_message INSUFFICIENT_CONTEXT None
         else refined_response)"

record pipeline_result =
  original_response :: string
  validation :: validation_result
  refined_response :: "string option"
  needs_refusal :: bool

definition run_hallucination_prevention_pipeline :: "string \<Rightarrow> string \<Rightarrow> string \<Rightarrow> pipeline_result" where
  "run_hallucination_prevention_pipeline q ctx response =
     (let p0 = \<lparr> original_response = response,
                  validation = validate_response_for_hallucinations response ctx,
                  refined_response = None,
                  needs_refusal = False \<rparr>
      in if hallucination_detected (validation p0) then
           (let r = refine_response response ctx;
                p1 = p0\<lparr> refined_response := Some r \<rparr>
            in if r \<noteq> response then
                 (let refined_validation = validate_response_for_hallucinations r ctx
                  in if hallucination_detected refined_validation then
                       p1\<lparr> needs_refusal := True,
                           refined_response :=
                             Some (get_refusal_message HALLUCINATION_PREVENTION None) \<rparr>
                     else p1)
               else p1)
         else p0\<lparr> refined_response := Some response \<rparr>)"


section \<open>Facts about the string primitives\<close>

lemma dropWhile_Nil_iff: "dropWhile P xs = [] \<longleftrightarrow> (\<forall>x \<in> set xs. P x)"
  by (induction xs) auto

lemma split_ws_Nil_iff: "split_ws s = [] \<longleftrightarrow> (\<forall>c \<in> set s. is_space c)"
proof -
  have "split_ws s = [] \<longleftrightarrow> dropWhile is_space s = []"
  proof (cases "dropWhile is_space s")
    case Nil
    show ?thesis by (subst split_ws.simps) (simp only: Nil list.case simp_thms)
  next
    case (Cons c cs)
    show ?thesis by (subst split_ws.simps) (simp only: Cons list.case list.distinct simp_thms)
  qed
  then show ?thesis
    by (simp only: dropWhile_Nil_iff)
qed

lemma strip_Nil_iff: "strip s = [] \<longleftrightarrow> (\<forall>c \<in> set s. is_space c)"
proof -
  have "strip s = [] \<longleftrightarrow> (\<forall>c \<in> set (dropWhile is_space s). is_space c)"
    unfolding strip_def by (simp only: rev_is_Nil_conv dropWhile_Nil_iff set_rev)
  also have "\<dots> \<longleftrightarrow> dropWhile is_space (dropWhile is_space s) = []"
    by (simp only: dropWhile_Nil_iff)
  also have "\<dots> \<longleftrightarrow> dropWhile is_space s = []"
    by (simp only: dropWhile_idem)
  also have "\<dots> \<longleftrightarrow> (\<forall>c \<in> set s. is_space c)"
    by (simp only: dropWhile_Nil_iff)
  finally show ?thesis .
qed

lemma of_char_lower_char:
  "(of_char (lower_char c) :: nat) =
     (let n = of_char c
      in if (65 \<le> n \<and> n \<le> 90) \<or> (192 \<le> n \<and> n \<le> 222 \<and> n \<noteq> 215) then n + 32 else n)"
  by (auto simp add: lower_char_def Let_def)

lemma is_space_lower_char: "is_space (lower_char c) = is_space c"
  unfolding is_space_def of_char_lower_char
  by (auto simp add: Let_def)

lemma all_space_lower: "(\<forall>c \<in> set (lower s). is_space c) \<longleftrightarrow> (\<forall>c \<in> set s. is_space c)"
  by (simp add: lower_def is_space_lower_char)

lemma split_ws_nonempty_strip:
  assumes "split_ws (lower s) \<noteq> []"
  shows "strip s \<noteq> []"
  using assms by (simp add: split_ws_Nil_iff strip_Nil_iff all_space_lower)

lemma dropWhile_append_stop:
  "\<not> P w \<Longrightarrow> dropWhile P (xs @ w # b) = dropWhile P xs @ w # b"
  by (induction xs) auto

lemma dropWhile_append_nonempty:
  "dropWhile P xs \<noteq> [] \<Longrightarrow> dropWhile P (xs @ ys) = dropWhile P xs @ ys"
  by (induction xs) auto

lemma split_ws_dropWhile: "split_ws (dropWhile is_space s) = split_ws s"
  by (subst split_ws.simps, subst (2) split_ws.simps) (simp only: dropWhile_idem)

lemma split_ws_space_Cons: "is_space w \<Longrightarrow> split_ws (w # b) = split_ws b"
  by (subst split_ws.simps, subst (2) split_ws.simps) simp

lemma split_ws_append_space:
  "is_space w \<Longrightarrow> split_ws (a @ w # b) = split_ws a @ split_ws b"
proof (induction a rule: split_ws.induct)
  case (1 s)
  show ?case
  proof (cases "dropWhile is_space s")
    case Nil
    then have all: "\<forall>c \<in> set s. is_space c"
      by (simp only: dropWhile_Nil_iff)
    then have "dropWhile is_space (s @ w # b) = dropWhile is_space (w # b)"
      by (simp add: dropWhile_append2)
    then have "split_ws (s @ w # b) = split_ws (w # b)"
      by (metis split_ws_dropWhile)
    moreover have "split_ws s = []"
      using all by (simp only: split_ws_Nil_iff)
    ultimately show ?thesis
      using "1.prems" by (simp add: split_ws_space_Cons)
  next
    case (Cons c cs)
    then have c: "\<not> is_space c"
      by (metis hd_dropWhile list.distinct(1) list.sel(1))
    have d: "dropWhile is_space (s @ w # b) = c # cs @ w # b"
    proof -
      have "dropWhile is_space s \<noteq> []"
        using Cons by simp
      then have "dropWhile is_space (s @ w # b) = dropWhile is_space s @ w # b"
        by (rule dropWhile_append_nonempty)
      then show ?thesis by (simp add: Cons)
    qed
    have t: "takeWhile (\<lambda>x. \<not> is_space x) (c # cs @ w # b) = takeWhile (\<lambda>x. \<not> is_space x) (c # cs)"
      using "1.prems" takeWhile_tail [of "\<lambda>x. \<not> is_space x" w "c # cs" b] by simp
    have r: "dropWhile (\<lambda>x. \<not> is_space x) (cs @ w # b) = dropWhile (\<lambda>x. \<not> is_space x) cs @ w # b"
      using "1.prems" by (simp add: dropWhile_append_stop)
    have ih: "split_ws (dropWhile (\<lambda>x. \<not> is_space x) cs @ w # b)
              = split_ws (dropWhile (\<lambda>x. \<not> is_space x) cs) @ split_ws b"
      using "1.IH" [OF Cons "1.prems"] .
    have lhs: "split_ws (s @ w # b) =
        takeWhile (\<lambda>x. \<not> is_space x) (c # cs) # split_ws (dropWhile (\<lambda>x. \<not> is_space x) cs) @ split_ws b"
      by (subst split_ws.simps) (simp only: d list.case t r ih append_Cons)
    have rhs: "split_ws s =
        takeWhile (\<lambda>x. \<not> is_space x) (c # cs) # split_ws (dropWhile (\<lambda>x. \<not> is_space x) cs)"
      by (subst split_ws.simps) (simp only: Cons list.case)
    show ?thesis
      by (simp only: lhs rhs append_Cons)
  qed
qed

lemma is_space_newline: "is_space (CHR 0x0A)"
  by (simp add: is_space_def)

lemma set_strip_subset: "set (strip s) \<subseteq> set s"
proof -
  have "set (strip s) \<subseteq> set (dropWhile is_space s)"
    unfolding strip_def using set_dropWhileD by fastforce
  also have "\<dots> \<subseteq> set s"
    using set_dropWhileD by fastforce
  finally show ?thesis .
qed

lemma dropWhile_id: "xs = [] \<or> \<not> P (hd xs) \<Longrightarrow> dropWhile P xs = xs"
  by (cases xs) auto

lemma strip_idem: "strip (strip s) = strip s"
proof -
  let ?u = "dropWhile is_space s"
  let ?v = "dropWhile is_space (rev ?u)"
  have s: "strip s = rev ?v" by (simp add: strip_def)
  have v: "dropWhile is_space ?v = ?v" by (rule dropWhile_idem)
  have "rev ?v = [] \<or> \<not> is_space (hd (rev ?v))"
  proof (cases "?v = []")
    case True
    then show ?thesis by simp
  next
    case False
    then have "last ?v = last (rev ?u)"
      by (metis (no_types) append_Nil2 last_appendR takeWhile_dropWhile_id)
    moreover have "?u \<noteq> []"
    proof
      assume "?u = []"
      then have "?v = []" by (simp only: rev.simps dropWhile.simps)
      with False show False by simp
    qed
    ultimately have "hd (rev ?v) = hd ?u"
      using False by (simp add: hd_rev last_rev)
    moreover have "\<not> is_space (hd ?u)"
      using \<open>?u \<noteq> []\<close> by (rule hd_dropWhile)
    ultimately show ?thesis by simp
  qed
  then have "dropWhile is_space (rev ?v) = rev ?v" by (rule dropWhile_id)
  then have "strip (rev ?v) = rev (dropWhile is_space ?v)"
    by (simp add: strip_def)
  with v s show ?thesis by simp
qed

lemma strip_space_Cons: "is_space x \<Longrightarrow> strip (x # w) = strip w"
  by (simp add: strip_def)

lemma strip_Nil: "strip [] = []"
  by (simp add: strip_def)

section \<open>Facts about the float arithmetic\<close>

lemma bit_length_bounds:
  "0 < n \<Longrightarrow> 2 ^ (bit_length n - 1) \<le> n \<and> n < 2 ^ bit_length n"
proof (induction n rule: bit_length.induct)
  case (1 n)
  show ?case
  proof (cases "n div 2 = 0")
    case True
    with "1.prems" have n1: "n = Suc 0" by presburger
    have "bit_length (Suc 0) = Suc 0"
      by (simp add: bit_length.simps [of "Suc 0"] bit_length.simps [of 0])
    then show ?thesis
      by (simp add: n1)
  next
    case False
    then have pos: "0 < n div 2" by simp
    from "1.prems" have n0: "n \<noteq> 0" by simp
    from "1.IH" [OF n0 pos]
    have ih: "2 ^ (bit_length (n div 2) - 1) \<le> n div 2" "n div 2 < 2 ^ bit_length (n div 2)"
      by simp_all
    have k: "0 < bit_length (n div 2)"
      using pos by (subst bit_length.simps) simp
    have bl: "bit_length n = Suc (bit_length (n div 2))"
      using n0 by (subst bit_length.simps) simp
    have "2 * 2 ^ (bit_length (n div 2) - 1) \<le> 2 * (n div 2)"
      using ih(1) by simp
    moreover have "2 * 2 ^ (bit_length (n div 2) - 1) = (2::nat) ^ bit_length (n div 2)"
      using k by (cases "bit_length (n div 2)") simp_all
    ultimately have lo: "2 ^ bit_length (n div 2) \<le> n"
      by presburger
    have "n div 2 + 1 \<le> 2 ^ bit_length (n div 2)"
      using ih(2) by simp
    then have "2 * (n div 2) + 2 \<le> 2 * 2 ^ bit_length (n div 2)"
      by simp
    then have hi: "n < 2 * 2 ^ bit_length (n div 2)"
      by presburger
    show ?thesis
      using lo hi by (simp add: bl)
  qed
qed

lemma exponent_ge_one:
  assumes "1 \<le> x"
  shows "0 \<le> exponent x \<and> 2 powi exponent x \<le> x"
proof -
  have ax: "\<bar>x\<bar> = x" using assms by simp
  have f1: "1 \<le> \<lfloor>x\<rfloor>" using assms by simp
  then have pos: "0 < nat \<lfloor>x\<rfloor>" by simp
  let ?k = "bit_length (nat \<lfloor>x\<rfloor>)"
  from bit_length_bounds [OF pos] have lo: "2 ^ (?k - 1) \<le> nat \<lfloor>x\<rfloor>" by simp
  have kpos: "0 < ?k"
    using pos by (subst bit_length.simps) simp
  have e: "exponent x = int ?k - 1"
    using assms by (simp add: exponent_def ax Let_def)
  have "(2::rat) ^ (?k - 1) = of_nat (2 ^ (?k - 1))" by simp
  also have "\<dots> \<le> of_nat (nat \<lfloor>x\<rfloor>)"
    using lo by (simp only: of_nat_le_iff)
  also have "\<dots> = of_int \<lfloor>x\<rfloor>"
    using f1 by simp
  also have "\<dots> \<le> x" by simp
  finally have "(2::rat) ^ (?k - 1) \<le> x" .
  moreover have "(2::rat) powi (int ?k - 1) = 2 ^ (?k - 1)"
    using kpos by (simp add: power_int_def nat_diff_distrib')
  ultimately show ?thesis
    using kpos by (simp add: e)
qed

lemma round_half_even_ge_floor: "\<lfloor>m\<rfloor> \<le> round_half_even m"
  by (simp add: round_half_even_def Let_def)

lemma round_half_even_ge: "of_int k \<le> m \<Longrightarrow> k \<le> round_half_even m"
proof -
  assume "of_int k \<le> m"
  then have "k \<le> \<lfloor>m\<rfloor>" by (simp add: le_floor_iff)
  with round_half_even_ge_floor [of m] show ?thesis by linarith
qed

lemma round_half_even_of_int: "round_half_even (of_int k) = k"
  by (simp add: round_half_even_def Let_def)

lemma round_half_even_nonpos: "m \<le> 0 \<Longrightarrow> round_half_even m \<le> 0"
proof -
  assume m: "m \<le> 0"
  then have f: "\<lfloor>m\<rfloor> \<le> 0" by (simp add: floor_le_iff)
  show ?thesis
  proof (cases "\<lfloor>m\<rfloor> = 0")
    case True
    then have "0 \<le> m" by (metis of_int_0 of_int_floor_le)
    with m have "m = 0" by simp
    then show ?thesis by (simp add: round_half_even_def Let_def)
  next
    case False
    with f have "\<lfloor>m\<rfloor> + 1 \<le> 0" by linarith
    moreover have "round_half_even m \<le> \<lfloor>m\<rfloor> + 1"
      by (simp add: round_half_even_def Let_def)
    ultimately show ?thesis by linarith
  qed
qed

lemma ulp_pos: "0 < (2::rat) powi e"
  by simp

lemma round_double_nonpos: "x \<le> 0 \<Longrightarrow> round_double x \<le> 0"
proof (cases "x = 0")
  case True
  then show ?thesis by (simp add: round_double_def)
next
  case False
  assume "x \<le> 0"
  then have "x / 2 powi (exponent x - 52) \<le> 0"
    by (simp add: divide_nonpos_pos)
  then have "round_half_even (x / 2 powi (exponent x - 52)) \<le> 0"
    by (rule round_half_even_nonpos)
  then have "(of_int (round_half_even (x / 2 powi (exponent x - 52))) :: rat) \<le> 0"
    by simp
  then have "of_int (round_half_even (x / 2 powi (exponent x - 52))) * (2::rat) powi (exponent x - 52) \<le> 0"
    by (simp add: mult_nonpos_nonneg)
  with False show ?thesis
    by (simp add: round_double_def Let_def)
qed

lemma round_double_ge_power:
  assumes "1 \<le> x"
  shows "2 powi exponent x \<le> round_double x"
proof -
  let ?e = "exponent x"
  let ?ulp = "(2::rat) powi (?e - 52)"
  from exponent_ge_one [OF assms] have e: "0 \<le> ?e" "2 powi ?e \<le> x" by simp_all
  have x0: "x \<noteq> 0" using assms by simp
  have "(2::rat) powi (52 + (?e - 52)) = 2 powi 52 * 2 powi (?e - 52)"
    by (rule power_int_add) simp
  then have split: "(2::rat) powi ?e = 2 ^ 52 * ?ulp"
    by simp
  have upos: "0 < ?ulp" by simp
  have "(2::rat) ^ 52 = 2 powi ?e / ?ulp"
    using upos by (simp only: split) simp
  also have "\<dots> \<le> x / ?ulp"
    using e(2) upos by (simp only: divide_right_mono less_imp_le)
  finally have "of_int (2 ^ 52) \<le> x / ?ulp"
    by simp
  then have "2 ^ 52 \<le> round_half_even (x / ?ulp)"
    by (rule round_half_even_ge)
  then have "(of_int (2 ^ 52) :: rat) \<le> of_int (round_half_even (x / ?ulp))"
    by (simp only: of_int_le_iff)
  then have "(2::rat) ^ 52 \<le> of_int (round_half_even (x / ?ulp))"
    by simp
  then have "(2::rat) ^ 52 * ?ulp \<le> of_int (round_half_even (x / ?ulp)) * ?ulp"
    by (rule mult_right_mono) simp
  then have ge: "2 powi ?e \<le> of_int (round_half_even (x / ?ulp)) * ?ulp"
    by (simp only: split)
  have rd: "round_double x = of_int (round_half_even (x / ?ulp)) * ?ulp"
    using x0 by (simp add: round_double_def Let_def)
  show ?thesis
    by (simp only: rd) (rule ge)
qed

lemma round_double_ge_one: "1 \<le> x \<Longrightarrow> 1 \<le> round_double x"
proof -
  assume x: "1 \<le> x"
  from exponent_ge_one [OF x] have "0 \<le> exponent x" by simp
  then have "(1::rat) \<le> 2 powi exponent x"
    by (simp add: one_le_power_int)
  with round_double_ge_power [OF x] show ?thesis by linarith
qed

lemma round_double_of_nat_ge:
  assumes "10 \<le> n"
  shows "10 \<le> round_double (of_nat n)"
proof -
  let ?x = "of_nat n :: rat"
  let ?e = "exponent ?x"
  have x1: "1 \<le> ?x" using assms by simp
  have x0: "?x \<noteq> 0" using assms by simp
  from exponent_ge_one [OF x1] have e0: "0 \<le> ?e" by simp
  show ?thesis
  proof (cases "?e \<le> 52")
    case True
    let ?d = "nat (52 - ?e)"
    have ulp: "(2::rat) powi (?e - 52) = 1 / 2 ^ ?d"
      using True by (simp add: power_int_def field_simps)
    have "?x / (2 powi (?e - 52)) = of_int (int n * 2 ^ ?d)"
      by (simp add: ulp)
    then have "round_half_even (?x / (2 powi (?e - 52))) = int n * 2 ^ ?d"
      by (simp only: round_half_even_of_int)
    then have "round_double ?x = of_int (int n * 2 ^ ?d) * (1 / 2 ^ ?d)"
      using x0 by (simp add: round_double_def Let_def ulp)
    then have "round_double ?x = ?x" by simp
    with assms show ?thesis by simp
  next
    case False
    then have "(2::rat) powi 4 \<le> 2 powi ?e"
      by (intro power_int_increasing) simp_all
    with round_double_ge_power [OF x1] show ?thesis by simp
  qed
qed

lemma point_one_value: "point_one = 3602879701896397 / 36028797018963968"
  by code_simp

lemma confidence_for_saturates:
  assumes "10 \<le> n"
  shows "confidence_for n = 0"
proof -
  let ?a = "float_of_int (int n)"
  let ?p = "float_mul ?a point_one"
  have a: "10 \<le> ?a"
    using round_double_of_nat_ge [OF assms] by (simp add: float_of_int_def)
  have "1 \<le> ?a * (3602879701896397 / 36028797018963968)"
    using a by simp
  then have "1 \<le> ?p"
    unfolding float_mul_def point_one_value by (rule round_double_ge_one)
  then have "1 - ?p \<le> 0" by simp
  then have "float_sub 1 ?p \<le> 0"
    unfolding float_sub_def by (rule round_double_nonpos)
  then show ?thesis
    by (simp add: confidence_for_def float_max_def)
qed

lemma confidence_for_values:
  "confidence_for 0 = 1"
  "confidence_for 1 = 8106479329266893 / 9007199254740992"
  "confidence_for 2 = 3602879701896397 / 4503599627370496"
  "confidence_for 3 = 3152519739159347 / 4503599627370496"
  "confidence_for 4 = 5404319552844595 / 9007199254740992"
  "confidence_for 5 = 1 / 2"
  "confidence_for 6 = 900719925474099 / 2251799813685248"
  "confidence_for 7 = 2702159776422297 / 9007199254740992"
  "confidence_for 8 = 900719925474099 / 4503599627370496"
  "confidence_for 9 = 900719925474099 / 9007199254740992"
  by code_simp+

lemma confidence_for_one: "confidence_for (Suc 0) = 8106479329266893 / 9007199254740992"
  using confidence_for_values(2) by simp

lemma confidence_for_error:
  "\<bar>confidence_for n - max 0 (1 - (1 / 10) * of_nat n)\<bar> \<le> 1 / 2 ^ 53
   \<and> 0 \<le> confidence_for n \<and> confidence_for n \<le> 1"
proof (cases "10 \<le> n")
  case True
  then have "(1::rat) - (1 / 10) * of_nat n \<le> 0" by simp
  then have "max 0 ((1::rat) - (1 / 10) * of_nat n) = 0" by simp
  with confidence_for_saturates [OF True] show ?thesis by simp
next
  case False
  then have small: "n < 10" by simp
  have "n \<in> {0, 1, 2, 3, 4, 5, 6, 7, 8, 9}"
    using small by simp presburger
  then show ?thesis
    by (elim insertE emptyE) (simp_all add: confidence_for_values confidence_for_one)
qed

section \<open>Facts about the sentence scorer\<close>

lemma re_split_terminal_nonempty: "re_split_terminal t \<noteq> []"
  by (induction t rule: re_split_terminal.induct) (auto split: list.splits)

lemma re_split_terminal_pieces:
  "p \<in> set (re_split_terminal t) \<Longrightarrow> c \<in> set p \<Longrightarrow> \<not> is_terminal c"
proof (induction t arbitrary: p rule: re_split_terminal.induct)
  case 1
  then show ?case by simp
next
  case (2 x xs)
  show ?case
  proof (cases "is_terminal x")
    case True
    with 2 show ?thesis by auto
  next
    case False
    obtain w ws where ws: "re_split_terminal xs = w # ws"
      using re_split_terminal_nonempty [of xs] by (cases "re_split_terminal xs") auto
    with False "2.prems" have "p = x # w \<or> p \<in> set ws" by simp
    then show ?thesis
    proof
      assume "p = x # w"
      with "2.prems" have "c = x \<or> c \<in> set w" by simp
      then show ?thesis
        using False "2.IH"(2) [OF False, of w] ws by auto
    next
      assume "p \<in> set ws"
      then show ?thesis
        using False "2.IH"(2) [OF False, of p] ws "2.prems" by auto
    qed
  qed
qed

lemma split_sentences_elem:
  assumes "s \<in> set (split_sentences text)"
  shows "s \<noteq> [] \<and> strip s = s \<and> (\<forall>c \<in> set s. \<not> is_terminal c)"
proof -
  from assms obtain p where p: "p \<in> set (re_split_terminal text)" and s: "s = strip p" and ne: "s \<noteq> []"
    by (auto simp add: split_sentences_def)
  have "\<forall>c \<in> set s. \<not> is_terminal c"
    using re_split_terminal_pieces [OF p] set_strip_subset [of p] s by auto
  with s ne show ?thesis by (simp add: strip_idem)
qed

lemma set_slice_to: "set (slice_to k xs) \<subseteq> set xs"
  by (auto simp add: slice_to_def dest: in_set_takeD)

lemma top_sentences_subset: "set (top_sentences text q k) \<subseteq> set (split_sentences text)"
proof
  fix s assume "s \<in> set (top_sentences text q k)"
  then obtain n where "(s, n) \<in> set (slice_to k (sort_key (\<lambda>x. - snd x)
      (map (\<lambda>sentence. (sentence, sentence_score (split_ws (lower q)) sentence))
         (split_sentences text))))"
    by (auto simp add: top_sentences_def Let_def)
  then have "(s, n) \<in> set (sort_key (\<lambda>x. - snd x)
      (map (\<lambda>sentence. (sentence, sentence_score (split_ws (lower q)) sentence))
         (split_sentences text)))"
    using set_slice_to by fastforce
  then show "s \<in> set (split_sentences text)"
    by auto
qed

lemma re_split_terminal_prefix:
  "\<forall>x \<in> set s. \<not> is_terminal x \<Longrightarrow> is_terminal c \<Longrightarrow>
   re_split_terminal (s @ c # rest) = s # re_split_terminal (dropWhile is_terminal rest)"
  by (induction s) simp_all

lemma re_split_terminal_Cons:
  "\<not> is_terminal x \<Longrightarrow>
   re_split_terminal (x # t) = (x # hd (re_split_terminal t)) # tl (re_split_terminal t)"
  using re_split_terminal_nonempty [of t] by (cases "re_split_terminal t") simp_all

lemma split_sentences_space_Cons:
  assumes "is_space x" "\<not> is_terminal x"
  shows "split_sentences (x # t) = split_sentences t"
proof -
  obtain w ws where ws: "re_split_terminal t = w # ws"
    using re_split_terminal_nonempty [of t] by (cases "re_split_terminal t") auto
  show ?thesis
    using assms ws by (simp add: split_sentences_def strip_space_Cons)
qed

lemma split_sentences_join:
  assumes "\<forall>s \<in> set ss. s \<noteq> [] \<and> strip s = s \<and> (\<forall>c \<in> set s. \<not> is_terminal c)"
  shows "split_sentences (join ''. '' ss @ ''.'') = ss"
  using assms
proof (induction ss rule: induct_list012)
  case 1
  show ?case
    by (simp add: split_sentences_def is_terminal_def strip_Nil)
next
  case (2 x)
  then have x: "x \<noteq> []" "strip x = x" "\<forall>c \<in> set x. \<not> is_terminal c" by simp_all
  have "re_split_terminal (x @ CHR ''.'' # []) = x # re_split_terminal (dropWhile is_terminal [])"
    using x(3) by (intro re_split_terminal_prefix) (simp_all add: is_terminal_def)
  then show ?case
    using x by (simp add: split_sentences_def strip_Nil)
next
  case (3 x y ys)
  then have x: "x \<noteq> []" "strip x = x" "\<forall>c \<in> set x. \<not> is_terminal c" by simp_all
  let ?X = "join ''. '' (y # ys) @ ''.''"
  have ih: "split_sentences ?X = y # ys"
    using "3.IH"(2) "3.prems" by simp
  have sp: "is_space CHR '' ''" "\<not> is_terminal CHR '' ''"
    by (simp_all add: is_space_def is_terminal_def)
  have "re_split_terminal (x @ CHR ''.'' # CHR '' '' # ?X)
          = x # re_split_terminal (dropWhile is_terminal (CHR '' '' # ?X))"
    using x(3) by (intro re_split_terminal_prefix) (simp_all add: is_terminal_def)
  also have "dropWhile is_terminal (CHR '' '' # ?X) = CHR '' '' # ?X"
    using sp by simp
  finally have "split_sentences (x @ CHR ''.'' # CHR '' '' # ?X)
          = x # split_sentences (CHR '' '' # ?X)"
    using x by (simp add: split_sentences_def)
  also have "split_sentences (CHR '' '' # ?X) = split_sentences ?X"
    using sp by (rule split_sentences_space_Cons)
  finally show ?case
    using ih by simp
qed

lemma slice_to_length: "0 \<le> k \<Longrightarrow> int (length (slice_to k xs)) \<le> k"
  by (simp add: slice_to_def)

lemma top_sentences_length:
  assumes "0 \<le> k"
  shows "int (length (top_sentences text q k)) \<le> k"
proof -
  let ?sorted = "sort_key (\<lambda>x. - snd x)
      (map (\<lambda>sentence. (sentence, sentence_score (split_ws (lower q)) sentence))
         (split_sentences text))"
  have a: "length (filter (\<lambda>s. snd s > 0) (slice_to k ?sorted)) \<le> length (slice_to k ?sorted)"
    by (rule length_filter_le)
  have b: "int (length (slice_to k ?sorted)) \<le> k"
    using assms by (rule slice_to_length)
  have "int (length (filter (\<lambda>s. snd s > 0) (slice_to k ?sorted))) \<le> k"
    using a b by linarith
  then show ?thesis
    by (simp add: top_sentences_def Let_def)
qed

section \<open>Facts about the context assembler\<close>

lemma token_count_joined:
  "calculate_token_count (a @ newlines @ b) = calculate_token_count a + calculate_token_count b"
proof -
  have "split_ws (a @ CHR 0x0A # CHR 0x0A # b) = split_ws a @ split_ws (CHR 0x0A # b)"
    using is_space_newline by (rule split_ws_append_space)
  also have "split_ws (CHR 0x0A # b) = split_ws b"
    using is_space_newline by (rule split_ws_space_Cons)
  finally show ?thesis
    by (simp add: calculate_token_count_def newlines_def)
qed

lemma token_count_Nil: "calculate_token_count [] = 0"
  by (simp add: calculate_token_count_def split_ws_Nil_iff)

lemma process_results_bound:
  "0 \<le> remaining \<Longrightarrow>
   token_count (process_results q cs result remaining) \<le> token_count result + remaining"
proof (induction cs arbitrary: result remaining)
  case Nil
  then show ?case by simp
next
  case (Cons c cs)
  show ?case
  proof (cases "remaining \<le> 0")
    case True
    with Cons.prems show ?thesis by simp
  next
    case False
    let ?e = "find_relevant_sentences (chunk_content c) q 3"
    show ?thesis
    proof (cases "strip ?e \<noteq> [] \<and> calculate_token_count ?e \<le> remaining")
      case True
      let ?r = "result\<lparr>
                 context_text :=
                   (if context_text result \<noteq> []
                    then context_text result @ newlines @ ?e else ?e),
                 token_count := token_count result + calculate_token_count ?e,
                 sources :=
                   (if source_ref c \<in> set (sources result) then sources result
                    else sources result @ [source_ref c]) \<rparr>"
      have step: "process_results q (c # cs) result remaining =
                  process_results q cs ?r (remaining - calculate_token_count ?e)"
        using False True by (simp add: Let_def)
      have "token_count (process_results q cs ?r (remaining - calculate_token_count ?e))
              \<le> token_count ?r + (remaining - calculate_token_count ?e)"
        using True by (intro Cons.IH) simp
      then show ?thesis
        by (simp only: step) simp
    next
      case skip: False
      have step: "process_results q (c # cs) result remaining =
                  process_results q cs result remaining"
        using False skip by (auto simp add: Let_def)
      show ?thesis
        using Cons.IH [OF Cons.prems, of result] by (simp only: step)
    qed
  qed
qed

lemma process_results_counts_words:
  "token_count result = calculate_token_count (context_text result) \<Longrightarrow>
   token_count (process_results q cs result remaining) =
     calculate_token_count (context_text (process_results q cs result remaining))"
proof (induction cs arbitrary: result remaining)
  case Nil
  then show ?case by simp
next
  case (Cons c cs)
  show ?case
  proof (cases "remaining \<le> 0")
    case True
    with Cons.prems show ?thesis by simp
  next
    case False
    let ?e = "find_relevant_sentences (chunk_content c) q 3"
    show ?thesis
    proof (cases "strip ?e \<noteq> [] \<and> calculate_token_count ?e \<le> remaining")
      case True
      let ?r = "result\<lparr>
                 context_text :=
                   (if context_text result \<noteq> []
                    then context_text result @ newlines @ ?e else ?e),
                 token_count := token_count result + calculate_token_count ?e,
                 sources :=
                   (if source_ref c \<in> set (sources result) then sources result
                    else sources result @ [source_ref c]) \<rparr>"
      have step: "process_results q (c # cs) result remaining =
                  process_results q cs ?r (remaining - calculate_token_count ?e)"
        using False True by (simp add: Let_def)
      have inv: "token_count ?r = calculate_token_count (context_text ?r)"
        using Cons.prems by (simp add: token_count_joined token_count_Nil)
      show ?thesis
        using Cons.IH [OF inv] by (simp only: step)
    next
      case skip: False
      have step: "process_results q (c # cs) result remaining =
                  process_results q cs result remaining"
        using False skip by (auto simp add: Let_def)
      show ?thesis
        using Cons.IH [OF Cons.prems] by (simp only: step)
    qed
  qed
qed

lemma selected_text_result_count:
  "token_count (selected_text_result q selected_text min_tokens) =
     (case selected_text of None \<Rightarrow> 0 | Some s \<Rightarrow> calculate_token_count s)"
  by (cases selected_text) (simp_all add: selected_text_result_def Let_def token_count_Nil)

lemma selected_text_result_counts_words:
  "token_count (selected_text_result q selected_text min_tokens) =
     calculate_token_count (context_text (selected_text_result q selected_text min_tokens))"
  by (cases selected_text) (simp_all add: selected_text_result_def Let_def token_count_Nil)

lemma retrieve_minimum_context_returns:
  assumes "retrieve_minimum_context db self q selected_text max_tokens min_tokens = (Inr r, self', issued)"
  shows "(connection self \<or> reachable db)
         \<and> ((truthy selected_text
              \<and> token_count (selected_text_result q selected_text min_tokens) \<le> max_tokens
              \<and> is_sufficient (selected_text_result q selected_text min_tokens)
              \<and> r = selected_text_result q selected_text min_tokens \<and> issued = [])
           \<or> (\<not> token_count (selected_text_result q selected_text min_tokens) < max_tokens
              \<and> r = selected_text_result q selected_text min_tokens \<and> issued = [])
           \<or> (token_count (selected_text_result q selected_text min_tokens) < max_tokens
              \<and> (\<exists>rows. r = (process_results q rows (selected_text_result q selected_text min_tokens)
                                 (max_tokens - token_count (selected_text_result q selected_text min_tokens)))
                               \<lparr> is_sufficient :=
                                   (min_tokens \<le> token_count (process_results q rows
                                      (selected_text_result q selected_text min_tokens)
                                      (max_tokens - token_count (selected_text_result q selected_text min_tokens)))) \<rparr>)
              \<and> issued = [q]))"
  using assms
  by (auto simp add: retrieve_minimum_context_def connect_to_db_def Let_def
      split: if_splits sum.splits)

section \<open>Facts about the grounding validator\<close>

lemma check_sentences_issues:
  "issues (check_sentences cw ss v) = issues v @ map potential_hallucination (filter (unsupported cw) ss)"
  by (induction ss arbitrary: v) (simp_all add: unsupported_def Let_def)

lemma check_sentences_is_valid:
  "is_valid (check_sentences cw ss v) = (is_valid v \<and> filter (unsupported cw) ss = [])"
  by (induction ss arbitrary: v) (simp_all add: unsupported_def Let_def)

lemma check_sentences_detected:
  "hallucination_detected (check_sentences cw ss v) =
     (hallucination_detected v \<or> filter (unsupported cw) ss \<noteq> [])"
  by (induction ss arbitrary: v) (simp_all add: unsupported_def Let_def)

lemma validate_issues:
  "issues (validate_response_for_hallucinations r c) =
     detect_patterns (lower r) @ map potential_hallucination (unsupported_sentences r c)"
  by (simp add: validate_response_for_hallucinations_def Let_def unsupported_sentences_def
      check_sentences_issues)

lemma validate_is_valid:
  "is_valid (validate_response_for_hallucinations r c) =
     (detect_patterns (lower r) = [] \<and> unsupported_sentences r c = [])"
  by (simp add: validate_response_for_hallucinations_def Let_def unsupported_sentences_def
      check_sentences_is_valid)

lemma validate_detected:
  "hallucination_detected (validate_response_for_hallucinations r c) =
     (detect_patterns (lower r) \<noteq> [] \<or> unsupported_sentences r c \<noteq> [])"
  by (simp add: validate_response_for_hallucinations_def Let_def unsupported_sentences_def
      check_sentences_detected)

lemma validate_confidence:
  "confidence_score (validate_response_for_hallucinations r c) =
     confidence_for (length (issues (validate_response_for_hallucinations r c)))"
  by (simp add: validate_response_for_hallucinations_def Let_def)

section \<open>The sufficiency and relevance gate\<close>

text \<open>
  C4. A non-empty context whose stripped length reaches the minimum and which shares at
  least one lowercased, whitespace-separated word with the query is not refused:
  \<open>should_refuse_answer\<close> returns \<open>should_refuse = False\<close>.
\<close>

theorem gate_accepts_shared_word:
  assumes "ctx \<noteq> []"
    and "min_context_length \<le> int (length (strip ctx))"
    and "set (split_ws (lower ctx)) \<inter> set (split_ws (lower q)) \<noteq> {}"
  shows "should_refuse (should_refuse_answer ctx q min_context_length) = False"
proof -
  from assms(3) have "split_ws (lower ctx) \<noteq> []" by auto
  then have ne: "strip ctx \<noteq> []" by (rule split_ws_nonempty_strip)
  have fin: "finite (set (split_ws (lower q)) \<inter> set (split_ws (lower ctx)))" by simp
  have "set (split_ws (lower q)) \<inter> set (split_ws (lower ctx)) \<noteq> {}"
    using assms(3) by (simp add: Int_commute)
  with fin have c: "card (set (split_ws (lower q)) \<inter> set (split_ws (lower ctx))) \<noteq> 0"
    by (simp only: card_eq_0_iff) simp
  show ?thesis
    using assms(1,2) ne c
    by (simp add: should_refuse_answer_def Let_def)
qed

text \<open>
  Scenario A of the specification, with the default minimum length 50.
\<close>

theorem gate_accepts_shared_word_witness:
  "''ROS 2 is a flexible framework for developing robot applications.'' \<noteq> []
   \<and> (50::int) \<le> int (length (strip ''ROS 2 is a flexible framework for developing robot applications.''))
   \<and> set (split_ws (lower ''ROS 2 is a flexible framework for developing robot applications.''))
       \<inter> set (split_ws (lower ''What is ROS 2?'')) \<noteq> {}
   \<and> should_refuse (should_refuse_answer
         ''ROS 2 is a flexible framework for developing robot applications.''
         ''What is ROS 2?'' 50) = False"
proof -
  have a: "''ROS 2 is a flexible framework for developing robot applications.'' \<noteq> []"
    by simp
  have b: "(50::int) \<le> int (length (strip ''ROS 2 is a flexible framework for developing robot applications.''))"
    by code_simp
  have c: "set (split_ws (lower ''ROS 2 is a flexible framework for developing robot applications.''))
       \<inter> set (split_ws (lower ''What is ROS 2?'')) \<noteq> {}"
    by code_simp
  from a b c gate_accepts_shared_word [OF a b c] show ?thesis
    by (intro conjI)
qed

text \<open>
  C5. A context whose stripped length is positive but below the minimum is refused with
  reason \<open>context_too_brief\<close> (refusal type and message of \<open>CONTEXT_TOO_BRIEF\<close>), whatever
  the query is; the reason is never \<open>no_relevance\<close>, because the length check returns
  before any word of the query is looked at.
\<close>

theorem brief_context_reason:
  assumes "0 < length (strip ctx)"
    and "int (length (strip ctx)) < min_context_length"
  shows "should_refuse_answer ctx q min_context_length =
           \<lparr> should_refuse = True,
             refusal_type = Some (refusal_value CONTEXT_TOO_BRIEF),
             message = Some (refusal_messages CONTEXT_TOO_BRIEF),
             reason = Some ''context_too_brief'' \<rparr>
         \<and> reason (should_refuse_answer ctx q min_context_length) \<noteq> Some ''no_relevance''"
proof -
  from assms(1) have ne: "ctx \<noteq> []" by (auto simp add: strip_def)
  show ?thesis
    using assms ne
    by (simp add: should_refuse_answer_def Let_def generate_context_insufficient_refusal_def
        get_refusal_message_def)
qed

text \<open>
  Scenario C of the specification; the context shares no word with the query.
\<close>

theorem brief_context_reason_witness:
  "0 < length (strip ''ROS.'') \<and> int (length (strip ''ROS.'')) < 50
   \<and> should_refuse_answer ''ROS.'' ''How do I install ROS 2?'' 50 =
           \<lparr> should_refuse = True,
             refusal_type = Some (refusal_value CONTEXT_TOO_BRIEF),
             message = Some (refusal_messages CONTEXT_TOO_BRIEF),
             reason = Some ''context_too_brief'' \<rparr>
   \<and> reason (should_refuse_answer ''ROS.'' ''How do I install ROS 2?'' 50) \<noteq> Some ''no_relevance''
   \<and> set (split_ws (lower ''ROS.'')) \<inter> set (split_ws (lower ''How do I install ROS 2?'')) = {}"
proof -
  have a: "0 < length (strip ''ROS.'')" by code_simp
  have b: "int (length (strip ''ROS.'')) < 50" by code_simp
  have c: "set (split_ws (lower ''ROS.'')) \<inter> set (split_ws (lower ''How do I install ROS 2?'')) = {}"
    by code_simp
  from a b c brief_context_reason [OF a b, of "''How do I install ROS 2?''"] show ?thesis
    by (intro conjI) simp_all
qed

text \<open>
  C6. An empty or whitespace-only context is refused with reason \<open>no_context\<close> (refusal
  type and message of \<open>NO_CONTEXT_PROVIDED\<close>) for every query, the empty query included,
  and every minimum length. The function is total: no input makes it raise.
\<close>

theorem empty_context_no_context:
  assumes "\<forall>c \<in> set ctx. is_space c"
  shows "should_refuse_answer ctx q min_context_length =
           \<lparr> should_refuse = True,
             refusal_type = Some (refusal_value NO_CONTEXT_PROVIDED),
             message = Some (refusal_messages NO_CONTEXT_PROVIDED),
             reason = Some ''no_context'' \<rparr>"
proof -
  from assms have "strip ctx = []" by (simp only: strip_Nil_iff)
  then show ?thesis
    by (simp add: should_refuse_answer_def Let_def generate_context_insufficient_refusal_def
        get_refusal_message_def)
qed

text \<open>
  The empty context with the empty query, and a context of a blank, a tab and a newline.
\<close>

theorem empty_context_no_context_witness:
  "list_all is_space ''''
   \<and> should_refuse_answer '''' '''' 50 =
           \<lparr> should_refuse = True,
             refusal_type = Some (refusal_value NO_CONTEXT_PROVIDED),
             message = Some (refusal_messages NO_CONTEXT_PROVIDED),
             reason = Some ''no_context'' \<rparr>
   \<and> list_all is_space [CHR '' '', CHR 0x09, CHR 0x0A]
   \<and> should_refuse_answer [CHR '' '', CHR 0x09, CHR 0x0A] ''How do I install ROS 2?'' 50 =
           \<lparr> should_refuse = True,
             refusal_type = Some (refusal_value NO_CONTEXT_PROVIDED),
             message = Some (refusal_messages NO_CONTEXT_PROVIDED),
             reason = Some ''no_context'' \<rparr>"
proof -
  have a: "\<forall>c \<in> set ''''. is_space c" by simp
  have b: "\<forall>c \<in> set [CHR '' '', CHR 0x09, CHR 0x0A]. is_space c"
    by (simp add: is_space_def)
  have a': "list_all is_space ''''" by simp
  have b': "list_all is_space [CHR '' '', CHR 0x09, CHR 0x0A]"
    by (simp add: is_space_def)
  from a' b' empty_context_no_context [OF a, of "''''" 50]
    empty_context_no_context [OF b, of "''How do I install ROS 2?''" 50]
  show ?thesis
    by (intro conjI)
qed

section \<open>The sentence relevance scorer\<close>

text \<open>
  C8, as amended. \<open>_find_relevant_sentences\<close> reads nothing but its three arguments, so
  equal arguments give equal results. For every cap \<open>k \<ge> 0\<close> the returned string holds at
  most \<open>k\<close> sentences: splitting the returned string into sentences gives back exactly the
  selected sentences, and there are at most \<open>k\<close> of them.
\<close>

theorem selection_bounded_by_cap:
  assumes "0 \<le> k"
  shows "split_sentences (find_relevant_sentences text q k) = top_sentences text q k
         \<and> int (length (split_sentences (find_relevant_sentences text q k))) \<le> k
         \<and> (text' = text \<and> q' = q \<and> k' = k \<longrightarrow>
              find_relevant_sentences text' q' k' = find_relevant_sentences text q k)"
proof -
  have "\<forall>s \<in> set (top_sentences text q k).
          s \<noteq> [] \<and> strip s = s \<and> (\<forall>c \<in> set s. \<not> is_terminal c)"
    using top_sentences_subset split_sentences_elem by blast
  then have rt: "split_sentences (join ''. '' (top_sentences text q k) @ ''.'') = top_sentences text q k"
    by (rule split_sentences_join)
  have len: "int (length (top_sentences text q k)) \<le> k"
    using assms by (rule top_sentences_length)
  show ?thesis
    using rt len by (simp add: find_relevant_sentences_def)
qed

text \<open>
  A text of four sentences, two of them matching the query, with caps 1 and 3.
\<close>

theorem selection_bounded_by_cap_witness:
  "find_relevant_sentences ''ROS is good. Cats are nice! ROS 2 is newer? Yes.'' ''ROS 2'' 1
     = ''ROS 2 is newer.''
   \<and> find_relevant_sentences ''ROS is good. Cats are nice! ROS 2 is newer? Yes.'' ''ROS 2'' 3
     = ''ROS 2 is newer. ROS is good.''
   \<and> int (length (split_sentences
        (find_relevant_sentences ''ROS is good. Cats are nice! ROS 2 is newer? Yes.'' ''ROS 2'' 1))) \<le> 1"
proof -
  have a: "find_relevant_sentences ''ROS is good. Cats are nice! ROS 2 is newer? Yes.'' ''ROS 2'' 1
     = ''ROS 2 is newer.''"
    by code_simp
  have b: "find_relevant_sentences ''ROS is good. Cats are nice! ROS 2 is newer? Yes.'' ''ROS 2'' 3
     = ''ROS 2 is newer. ROS is good.''"
    by code_simp
  have k: "(0::int) \<le> 1" by simp
  note th = selection_bounded_by_cap [OF k,
      of "''ROS is good. Cats are nice! ROS 2 is newer? Yes.''" "''ROS 2''"]
  note c = th [THEN conjunct2, THEN conjunct1]
  from a b c show ?thesis
    by (intro conjI)
qed

text \<open>
  The bound needs \<open>k \<ge> 0\<close>: the slice \<open>scored_sentences[:-1]\<close> drops only the last
  sentence, so with the cap \<open>-1\<close> a text of two matching sentences yields one sentence,
  which is more than the cap.
\<close>

theorem negative_cap_counterexample:
  "top_sentences ''a. a'' ''a'' (- 1) = [''a'']
   \<and> find_relevant_sentences ''a. a'' ''a'' (- 1) = ''a.''
   \<and> \<not> int (length (top_sentences ''a. a'' ''a'' (- 1))) \<le> - 1"
  by code_simp

text \<open>
  C2. When no sentence contains a query term the list of selected sentences is empty, but
  \<open>'. '.join([]) + '.'\<close> is the string \<open>.\<close> and not the empty string. Its stripped form is
  not empty, so the assembler does not skip the chunk: the lone period enters the context,
  counts as one token and the chunk is listed as a source. The second row is one that the
  full-text search returns for its query: the query term \<open>ros?\<close> keeps its question mark
  and so does not occur in the sentence.
\<close>

theorem no_match_yields_dot:
  "find_relevant_sentences ''Hello world'' ''xyz'' 3 = ''.''
   \<and> retrieve_minimum_context
        \<lparr> reachable = True,
          search = (\<lambda>q. Inr [\<lparr> chunk_id = ''c1'', chunk_chapter = ''ch1'',
                               chunk_section = Some ''s1'', chunk_title = ''Intro'',
                               chunk_content = ''Hello world'', chunk_token_count = 2 \<rparr>]) \<rparr>
        \<lparr> db_url = ''postgres'', connection = True \<rparr>
        ''xyz'' None 10 1 =
        (Inr \<lparr> context_text = ''.'', sources = [''ch1/s1 - Intro''],
               token_count = 1, selected_text_used = False,
               query_text = ''xyz'', is_sufficient = True \<rparr>,
         \<lparr> db_url = ''postgres'', connection = True \<rparr>, [''xyz''])
   \<and> find_relevant_sentences ''ROS runs on Linux.'' ''What is ROS?'' 3 = ''.''
   \<and> retrieve_minimum_context
        \<lparr> reachable = True,
          search = (\<lambda>q. Inr [\<lparr> chunk_id = ''c7'', chunk_chapter = ''ch2'',
                               chunk_section = None, chunk_title = ''Platforms'',
                               chunk_content = ''ROS runs on Linux.'', chunk_token_count = 4 \<rparr>]) \<rparr>
        \<lparr> db_url = ''postgres'', connection = True \<rparr>
        ''What is ROS?'' None 10 1 =
        (Inr \<lparr> context_text = ''.'', sources = [''ch2/None - Platforms''],
               token_count = 1, selected_text_used = False,
               query_text = ''What is ROS?'', is_sufficient = True \<rparr>,
         \<lparr> db_url = ''postgres'', connection = True \<rparr>, [''What is ROS?''])"
  by code_simp

section \<open>The context assembler\<close>

text \<open>
  C1, as amended. For every context that \<open>retrieve_minimum_context\<close> returns,
  \<open>token_count\<close> is the whitespace word count of the assembled text. If the word count of
  the selected excerpt (0 when none is given) is at most \<open>max_tokens\<close>, then
  \<open>token_count \<le> max_tokens\<close>. Otherwise no corpus query is made and the budget is
  exceeded: a non-empty excerpt of more than \<open>max_tokens\<close> words is returned unchanged
  with its own word count, and without an excerpt a negative \<open>max_tokens\<close> gives the empty
  context with \<open>token_count = 0\<close>.
\<close>

theorem token_budget_respected:
  assumes ret: "retrieve_minimum_context db self q selected_text max_tokens min_tokens
                  = (Inr r, self', issued)"
  shows "token_count r = calculate_token_count (context_text r)
         \<and> ((case selected_text of None \<Rightarrow> 0 | Some s \<Rightarrow> calculate_token_count s) \<le> max_tokens
              \<longrightarrow> token_count r \<le> max_tokens)
         \<and> (\<forall>s. selected_text = Some s \<and> s \<noteq> [] \<and> max_tokens < calculate_token_count s
              \<longrightarrow> r = \<lparr> context_text = s, sources = [''User Selected Text''],
                        token_count = calculate_token_count s, selected_text_used = True,
                        query_text = q,
                        is_sufficient = (min_tokens \<le> calculate_token_count s) \<rparr>
                  \<and> max_tokens < token_count r \<and> issued = [])
         \<and> (\<not> truthy selected_text \<and> max_tokens < 0
              \<longrightarrow> r = \<lparr> context_text = [], sources = [], token_count = 0,
                        selected_text_used = False, query_text = q, is_sufficient = False \<rparr>
                  \<and> max_tokens < token_count r \<and> issued = [])"
proof -
  let ?r1 = "selected_text_result q selected_text min_tokens"
  let ?c0 = "case selected_text of None \<Rightarrow> 0 | Some s \<Rightarrow> calculate_token_count s"
  have inv1: "token_count ?r1 = calculate_token_count (context_text ?r1)"
    by (rule selected_text_result_counts_words)
  have c0: "token_count ?r1 = ?c0"
    by (rule selected_text_result_count)
  note cases = retrieve_minimum_context_returns [OF ret, THEN conjunct2]
  have words: "token_count r = calculate_token_count (context_text r)"
    using cases
  proof (elim disjE conjE exE)
    fix rows
    let ?r2 = "process_results q rows ?r1 (max_tokens - token_count ?r1)"
    assume "r = ?r2\<lparr> is_sufficient := (min_tokens \<le> token_count ?r2) \<rparr>"
    moreover have "token_count ?r2 = calculate_token_count (context_text ?r2)"
      using inv1 by (rule process_results_counts_words)
    ultimately show ?thesis by simp
  qed (simp_all add: inv1)
  have bound: "token_count r \<le> max_tokens" if budget: "?c0 \<le> max_tokens"
    using cases
  proof (elim disjE conjE exE)
    fix rows
    let ?r2 = "process_results q rows ?r1 (max_tokens - token_count ?r1)"
    assume lt: "token_count ?r1 < max_tokens"
      and r: "r = ?r2\<lparr> is_sufficient := (min_tokens \<le> token_count ?r2) \<rparr>"
    have "token_count ?r2 \<le> token_count ?r1 + (max_tokens - token_count ?r1)"
      using lt by (intro process_results_bound) simp
    with r show ?thesis by simp
  qed (use budget c0 in simp_all)
  have over: "r = ?r1 \<and> issued = []" if "max_tokens < ?c0"
    using cases that c0 by (elim disjE conjE exE) simp_all
  have big: "r = \<lparr> context_text = s, sources = [''User Selected Text''],
                   token_count = calculate_token_count s, selected_text_used = True,
                   query_text = q,
                   is_sufficient = (min_tokens \<le> calculate_token_count s) \<rparr>
             \<and> max_tokens < token_count r \<and> issued = []"
    if "selected_text = Some s \<and> s \<noteq> [] \<and> max_tokens < calculate_token_count s" for s
  proof -
    from that have "max_tokens < ?c0" by simp
    from over [OF this] that show ?thesis
      by (simp add: selected_text_result_def Let_def)
  qed
  have neg: "r = \<lparr> context_text = [], sources = [], token_count = 0,
                   selected_text_used = False, query_text = q, is_sufficient = False \<rparr>
             \<and> max_tokens < token_count r \<and> issued = []"
    if "\<not> truthy selected_text \<and> max_tokens < 0"
  proof -
    from that have "max_tokens < ?c0"
      by (cases selected_text) (simp_all add: token_count_Nil)
    from over [OF this] that show ?thesis
      by (cases selected_text) (simp_all add: selected_text_result_def Let_def)
  qed
  show ?thesis
    using words bound big neg by blast
qed

text \<open>
  An excerpt of three words that is too short to be sufficient is supplemented from the
  corpus: the first row's excerpt (five words) exceeds the remaining budget of four and is
  skipped, the second (four words) fills the budget exactly. An excerpt of four words
  against a budget of three is returned as it is.
\<close>

theorem token_budget_respected_witness:
  "retrieve_minimum_context
      \<lparr> reachable = True,
        search = (\<lambda>q. Inr [\<lparr> chunk_id = ''c1'', chunk_chapter = ''Chapter 1'',
                             chunk_section = Some ''1.1'', chunk_title = ''Intro'',
                             chunk_content = ''ROS 2 is a framework. Cats.'',
                             chunk_token_count = 6 \<rparr>,
                           \<lparr> chunk_id = ''c2'', chunk_chapter = ''Chapter 2'',
                             chunk_section = None, chunk_title = ''Tools'',
                             chunk_content = ''ROS tools are many'',
                             chunk_token_count = 4 \<rparr>]) \<rparr>
      \<lparr> db_url = ''postgres'', connection = False \<rparr>
      ''ROS'' (Some ''ROS 2 basics'') 7 5 =
    (Inr \<lparr> context_text = ''ROS 2 basics'' @ newlines @ ''ROS tools are many.'',
           sources = [''User Selected Text'', ''Chapter 2/None - Tools''],
           token_count = 7, selected_text_used = True,
           query_text = ''ROS'', is_sufficient = True \<rparr>,
     \<lparr> db_url = ''postgres'', connection = True \<rparr>, [''ROS''])
   \<and> calculate_token_count ''ROS 2 basics'' = 3
   \<and> calculate_token_count (''ROS 2 basics'' @ newlines @ ''ROS tools are many.'') = 7
   \<and> calculate_token_count ''one two three four'' = 4
   \<and> fst (retrieve_minimum_context
        \<lparr> reachable = True, search = (\<lambda>q. Inr []) \<rparr>
        \<lparr> db_url = ''postgres'', connection = True \<rparr>
        ''ROS'' (Some ''one two three four'') 3 1) =
       Inr \<lparr> context_text = ''one two three four'', sources = [''User Selected Text''],
             token_count = 4, selected_text_used = True,
             query_text = ''ROS'', is_sufficient = True \<rparr>"
proof -
  have ret: "retrieve_minimum_context
      \<lparr> reachable = True,
        search = (\<lambda>q. Inr [\<lparr> chunk_id = ''c1'', chunk_chapter = ''Chapter 1'',
                             chunk_section = Some ''1.1'', chunk_title = ''Intro'',
                             chunk_content = ''ROS 2 is a framework. Cats.'',
                             chunk_token_count = 6 \<rparr>,
                           \<lparr> chunk_id = ''c2'', chunk_chapter = ''Chapter 2'',
                             chunk_section = None, chunk_title = ''Tools'',
                             chunk_content = ''ROS tools are many'',
                             chunk_token_count = 4 \<rparr>]) \<rparr>
      \<lparr> db_url = ''postgres'', connection = False \<rparr>
      ''ROS'' (Some ''ROS 2 basics'') 7 5 =
    (Inr \<lparr> context_text = ''ROS 2 basics'' @ newlines @ ''ROS tools are many.'',
           sources = [''User Selected Text'', ''Chapter 2/None - Tools''],
           token_count = 7, selected_text_used = True,
           query_text = ''ROS'', is_sufficient = True \<rparr>,
     \<lparr> db_url = ''postgres'', connection = True \<rparr>, [''ROS''])"
    by code_simp
  have n: "calculate_token_count ''ROS 2 basics'' = 3"
    by code_simp
  from token_budget_respected [OF ret, THEN conjunct1]
  have w: "calculate_token_count (''ROS 2 basics'' @ newlines @ ''ROS tools are many.'') = 7"
    by simp
  have m: "calculate_token_count ''one two three four'' = 4"
    by code_simp
  obtain r self' issued where ret2: "retrieve_minimum_context
        \<lparr> reachable = True, search = (\<lambda>q. Inr []) \<rparr>
        \<lparr> db_url = ''postgres'', connection = True \<rparr>
        ''ROS'' (Some ''one two three four'') 3 1 = (Inr r, self', issued)"
    by (simp add: retrieve_minimum_context_def selected_text_result_def Let_def m)
  from token_budget_respected [OF ret2, THEN conjunct2, THEN conjunct2, THEN conjunct1]
  have "r = \<lparr> context_text = ''one two three four'', sources = [''User Selected Text''],
              token_count = calculate_token_count ''one two three four'',
              selected_text_used = True, query_text = ''ROS'',
              is_sufficient = (1 \<le> calculate_token_count ''one two three four'') \<rparr>"
    by (simp add: m)
  then have big: "fst (retrieve_minimum_context
        \<lparr> reachable = True, search = (\<lambda>q. Inr []) \<rparr>
        \<lparr> db_url = ''postgres'', connection = True \<rparr>
        ''ROS'' (Some ''one two three four'') 3 1) =
       Inr \<lparr> context_text = ''one two three four'', sources = [''User Selected Text''],
             token_count = 4, selected_text_used = True,
             query_text = ''ROS'', is_sufficient = True \<rparr>"
    by (simp add: ret2 m)
  from ret n w m big show ?thesis
    by (intro conjI)
qed

text \<open>
  An excerpt longer than \<open>max_tokens\<close> is neither cut nor dropped: it is returned as it is,
  with its own word count, here 3 against a budget of 2. Without an excerpt and with the
  budget \<open>-1\<close> the empty context is returned, whose \<open>token_count\<close> 0 exceeds the budget.
\<close>

theorem oversized_excerpt_counterexample:
  "calculate_token_count ''a b c'' = 3
   \<and> retrieve_minimum_context
        \<lparr> reachable = True, search = (\<lambda>q. Inr []) \<rparr>
        \<lparr> db_url = ''postgres'', connection = True \<rparr>
        ''ROS'' (Some ''a b c'') 2 1 =
        (Inr \<lparr> context_text = ''a b c'', sources = [''User Selected Text''],
               token_count = 3, selected_text_used = True,
               query_text = ''ROS'', is_sufficient = True \<rparr>,
         \<lparr> db_url = ''postgres'', connection = True \<rparr>, [])
   \<and> \<not> token_count \<lparr> context_text = ''a b c'', sources = [''User Selected Text''],
               token_count = 3, selected_text_used = True,
               query_text = ''ROS'', is_sufficient = True \<rparr> \<le> 2
   \<and> retrieve_minimum_context
        \<lparr> reachable = True, search = (\<lambda>q. Inr []) \<rparr>
        \<lparr> db_url = ''postgres'', connection = True \<rparr>
        ''ROS'' None (- 1) 1 =
        (Inr \<lparr> context_text = [], sources = [],
               token_count = 0, selected_text_used = False,
               query_text = ''ROS'', is_sufficient = False \<rparr>,
         \<lparr> db_url = ''postgres'', connection = True \<rparr>, [])
   \<and> \<not> token_count \<lparr> context_text = [], sources = [],
               token_count = 0, selected_text_used = False,
               query_text = ''ROS'', is_sufficient = False \<rparr> \<le> - 1"
  by code_simp

text \<open>
  C7, as amended. For every non-empty selected excerpt whose word count lies between
  \<open>min_tokens\<close> and \<open>max_tokens\<close> (inclusive), on a retriever whose database connection
  is open or can be opened, \<open>retrieve_minimum_context\<close> returns the excerpt verbatim as the
  context, the single source \<open>User Selected Text\<close> and \<open>is_sufficient = True\<close>, whatever
  the corpus would answer. When the connection is not open and cannot be opened, the call
  raises the connection error instead. In neither case is a query sent to the corpus.
\<close>

theorem sufficient_excerpt_returned_verbatim:
  assumes "s \<noteq> []"
    and "min_tokens \<le> calculate_token_count s"
    and "calculate_token_count s \<le> max_tokens"
  shows "retrieve_minimum_context db self q (Some s) max_tokens min_tokens =
           (if connection self \<or> reachable db
            then (Inr \<lparr> context_text = s, sources = [''User Selected Text''],
                        token_count = calculate_token_count s, selected_text_used = True,
                        query_text = q, is_sufficient = True \<rparr>,
                  self\<lparr> connection := True \<rparr>, [])
            else (Inl ConnectionError, self, []))"
proof (cases "connection self")
  case True
  then have "self\<lparr> connection := True \<rparr> = self"
    by (cases self) simp
  with True assms show ?thesis
    by (simp add: retrieve_minimum_context_def selected_text_result_def Let_def)
next
  case False
  with assms show ?thesis
    by (simp add: retrieve_minimum_context_def connect_to_db_def selected_text_result_def Let_def)
qed

text \<open>
  Scenario E of the specification, on an open connection to a database whose search would
  fail if it were used, and on a retriever that connects first.
\<close>

theorem sufficient_excerpt_returned_verbatim_witness:
  "calculate_token_count ''ROS 2 is designed for large development efforts.'' = 8
   \<and> retrieve_minimum_context
        \<lparr> reachable = False, search = (\<lambda>q. Inl DatabaseError) \<rparr>
        \<lparr> db_url = ''postgres'', connection = True \<rparr>
        ''What is ROS 2 for?''
        (Some ''ROS 2 is designed for large development efforts.'') 50 5 =
           (Inr \<lparr> context_text = ''ROS 2 is designed for large development efforts.'',
                  sources = [''User Selected Text''],
                  token_count = 8, selected_text_used = True,
                  query_text = ''What is ROS 2 for?'', is_sufficient = True \<rparr>,
            \<lparr> db_url = ''postgres'', connection = True \<rparr>, [])
   \<and> retrieve_minimum_context
        \<lparr> reachable = True, search = (\<lambda>q. Inl DatabaseError) \<rparr>
        \<lparr> db_url = ''postgres'', connection = False \<rparr>
        ''What is ROS 2 for?''
        (Some ''ROS 2 is designed for large development efforts.'') 50 5 =
           (Inr \<lparr> context_text = ''ROS 2 is designed for large development efforts.'',
                  sources = [''User Selected Text''],
                  token_count = 8, selected_text_used = True,
                  query_text = ''What is ROS 2 for?'', is_sufficient = True \<rparr>,
            \<lparr> db_url = ''postgres'', connection = True \<rparr>, [])"
proof -
  have n: "calculate_token_count ''ROS 2 is designed for large development efforts.'' = 8"
    by code_simp
  have a: "''ROS 2 is designed for large development efforts.'' \<noteq> []" by simp
  have b: "5 \<le> calculate_token_count ''ROS 2 is designed for large development efforts.''"
    by (simp add: n)
  have c: "calculate_token_count ''ROS 2 is designed for large development efforts.'' \<le> 50"
    by (simp add: n)
  note th = sufficient_excerpt_returned_verbatim [OF a b c]
  from th [of "\<lparr> reachable = False, search = (\<lambda>q. Inl DatabaseError) \<rparr>"
              "\<lparr> db_url = ''postgres'', connection = True \<rparr>" "''What is ROS 2 for?''"]
  have one: "retrieve_minimum_context
        \<lparr> reachable = False, search = (\<lambda>q. Inl DatabaseError) \<rparr>
        \<lparr> db_url = ''postgres'', connection = True \<rparr>
        ''What is ROS 2 for?''
        (Some ''ROS 2 is designed for large development efforts.'') 50 5 =
           (Inr \<lparr> context_text = ''ROS 2 is designed for large development efforts.'',
                  sources = [''User Selected Text''],
                  token_count = 8, selected_text_used = True,
                  query_text = ''What is ROS 2 for?'', is_sufficient = True \<rparr>,
            \<lparr> db_url = ''postgres'', connection = True \<rparr>, [])"
    by (simp add: n)
  from th [of "\<lparr> reachable = True, search = (\<lambda>q. Inl DatabaseError) \<rparr>"
              "\<lparr> db_url = ''postgres'', connection = False \<rparr>" "''What is ROS 2 for?''"]
  have two: "retrieve_minimum_context
        \<lparr> reachable = True, search = (\<lambda>q. Inl DatabaseError) \<rparr>
        \<lparr> db_url = ''postgres'', connection = False \<rparr>
        ''What is ROS 2 for?''
        (Some ''ROS 2 is designed for large development efforts.'') 50 5 =
           (Inr \<lparr> context_text = ''ROS 2 is designed for large development efforts.'',
                  sources = [''User Selected Text''],
                  token_count = 8, selected_text_used = True,
                  query_text = ''What is ROS 2 for?'', is_sufficient = True \<rparr>,
            \<lparr> db_url = ''postgres'', connection = True \<rparr>, [])"
    by (simp add: n)
  from n one two show ?thesis
    by (intro conjI)
qed

text \<open>
  The empty excerpt has a word count of 0, which lies between \<open>min_tokens = 0\<close> and
  \<open>max_tokens = 10\<close>, but the test \<open>if selected_text:\<close> treats it as absent: the corpus is
  queried and the source list is not the user-selected label. And on a retriever without
  a connection, against a database that refuses the connection, the excerpt of Scenario E
  is not returned: the call raises the connection error.
\<close>

theorem empty_excerpt_counterexample:
  "(0::int) \<le> calculate_token_count '''' \<and> calculate_token_count '''' \<le> 10
   \<and> retrieve_minimum_context
        \<lparr> reachable = True, search = (\<lambda>q. Inr []) \<rparr>
        \<lparr> db_url = ''postgres'', connection = True \<rparr>
        ''ROS'' (Some '''') 10 0 =
        (Inr \<lparr> context_text = '''', sources = [],
               token_count = 0, selected_text_used = False,
               query_text = ''ROS'', is_sufficient = True \<rparr>,
         \<lparr> db_url = ''postgres'', connection = True \<rparr>, [''ROS''])
   \<and> (5::int) \<le> calculate_token_count ''ROS 2 is designed for large development efforts.''
   \<and> calculate_token_count ''ROS 2 is designed for large development efforts.'' \<le> 50
   \<and> retrieve_minimum_context
        \<lparr> reachable = False, search = (\<lambda>q. Inr []) \<rparr>
        \<lparr> db_url = ''postgres'', connection = False \<rparr>
        ''What is ROS 2 for?''
        (Some ''ROS 2 is designed for large development efforts.'') 50 5 =
        (Inl ConnectionError, \<lparr> db_url = ''postgres'', connection = False \<rparr>, [])"
  by code_simp

section \<open>The grounding validator\<close>

text \<open>
  C9, as amended. The report of \<open>validate_response_for_hallucinations\<close> has the confidence
  that double arithmetic gives for \<open>max(0.0, 1.0 - n * 0.1)\<close>, where \<open>n\<close> counts the
  matched patterns and the unsupported sentences, which are exactly the entries of
  \<open>issues\<close>. This value lies between 0 and 1, differs from \<open>max 0 (1 - n / 10)\<close> by at
  most \<open>2 ^ -53\<close>, is 1 when nothing is flagged and 0 from ten flagged items on.
  \<open>is_valid\<close> holds exactly when no pattern matched and no sentence was found unsupported,
  and \<open>hallucination_detected\<close> is its negation. In particular an answer containing
  \<open>according to my training data\<close> is not valid, with that pattern among the issues,
  for every context.
\<close>

theorem validate_confidence_and_grounding:
  "confidence_score (validate_response_for_hallucinations r c) =
     confidence_for (length (detect_patterns (lower r)) + length (unsupported_sentences r c))
   \<and> \<bar>confidence_score (validate_response_for_hallucinations r c)
        - max 0 (1 - (1 / 10) * of_nat (length (detect_patterns (lower r))
                                       + length (unsupported_sentences r c)))\<bar> \<le> 1 / 2 ^ 53
   \<and> 0 \<le> confidence_score (validate_response_for_hallucinations r c)
   \<and> confidence_score (validate_response_for_hallucinations r c) \<le> 1
   \<and> (length (detect_patterns (lower r)) + length (unsupported_sentences r c) = 0
        \<longrightarrow> confidence_score (validate_response_for_hallucinations r c) = 1)
   \<and> (10 \<le> length (detect_patterns (lower r)) + length (unsupported_sentences r c)
        \<longrightarrow> confidence_score (validate_response_for_hallucinations r c) = 0)
   \<and> issues (validate_response_for_hallucinations r c) =
       detect_patterns (lower r) @ map potential_hallucination (unsupported_sentences r c)
   \<and> (is_valid (validate_response_for_hallucinations r c) \<longleftrightarrow>
        detect_patterns (lower r) = [] \<and> unsupported_sentences r c = [])
   \<and> (hallucination_detected (validate_response_for_hallucinations r c) \<longleftrightarrow>
        \<not> is_valid (validate_response_for_hallucinations r c))
   \<and> (is_substring ''according to my training data'' (lower r) \<longrightarrow>
        \<not> is_valid (validate_response_for_hallucinations r c)
        \<and> ''according to my training data'' \<in> set (issues (validate_response_for_hallucinations r c)))"
proof -
  let ?n = "length (detect_patterns (lower r)) + length (unsupported_sentences r c)"
  have p: "''according to my training data'' \<in> set hallucination_patterns"
    by (simp add: hallucination_patterns_def)
  have d: "is_substring ''according to my training data'' (lower r) \<Longrightarrow>
           ''according to my training data'' \<in> set (detect_patterns (lower r))"
    using p by (simp add: detect_patterns_def)
  have e: "is_substring ''according to my training data'' (lower r) \<Longrightarrow>
           detect_patterns (lower r) \<noteq> []"
    using d by auto
  let ?v = "validate_response_for_hallucinations r c"
  have conf: "confidence_score ?v = confidence_for ?n"
    by (simp add: validate_confidence validate_issues)
  have c1: "confidence_score ?v = confidence_for ?n"
    by (rule conf)
  have c2: "\<bar>confidence_score ?v - max 0 (1 - (1 / 10) * of_nat ?n)\<bar> \<le> 1 / 2 ^ 53"
    unfolding conf using confidence_for_error [of ?n] by (rule conjunct1)
  have c3: "0 \<le> confidence_score ?v"
    unfolding conf using confidence_for_error [of ?n] by simp
  have c4: "confidence_score ?v \<le> 1"
    unfolding conf using confidence_for_error [of ?n] by simp
  have c5: "?n = 0 \<longrightarrow> confidence_score ?v = 1"
    unfolding conf by (simp add: confidence_for_values)
  have c6: "10 \<le> ?n \<longrightarrow> confidence_score ?v = 0"
    unfolding conf by (simp add: confidence_for_saturates)
  have c7: "issues ?v =
       detect_patterns (lower r) @ map potential_hallucination (unsupported_sentences r c)"
    by (rule validate_issues)
  have c8: "is_valid ?v \<longleftrightarrow> detect_patterns (lower r) = [] \<and> unsupported_sentences r c = []"
    by (rule validate_is_valid)
  have c9: "hallucination_detected ?v \<longleftrightarrow> \<not> is_valid ?v"
    by (simp add: validate_is_valid validate_detected)
  have c10: "is_substring ''according to my training data'' (lower r) \<longrightarrow>
        \<not> is_valid ?v \<and> ''according to my training data'' \<in> set (issues ?v)"
    using d e by (simp add: validate_is_valid validate_issues)
  show ?thesis
    by (intro conjI) (fact c1 c2 c3 c4 c5 c6 c7 c8 c9 c10)+
qed

text \<open>
  Scenario D of the specification: one flagged item, and the confidence is the double 0.9.
\<close>

theorem validate_confidence_and_grounding_witness:
  "is_substring ''according to my training data''
      (lower ''According to my training data, ROS 2 was made in 2010.'')
   \<and> is_valid (validate_response_for_hallucinations
        ''According to my training data, ROS 2 was made in 2010.''
        ''ROS 2 is a robotics framework.'') = False
   \<and> ''according to my training data'' \<in> set (issues (validate_response_for_hallucinations
        ''According to my training data, ROS 2 was made in 2010.''
        ''ROS 2 is a robotics framework.''))
   \<and> confidence_score (validate_response_for_hallucinations
        ''According to my training data, ROS 2 was made in 2010.''
        ''ROS 2 is a robotics framework.'') = 8106479329266893 / 9007199254740992"
proof -
  have a: "is_substring ''according to my training data''
      (lower ''According to my training data, ROS 2 was made in 2010.'')"
    by code_simp
  have n: "length (detect_patterns (lower ''According to my training data, ROS 2 was made in 2010.''))
           + length (unsupported_sentences
               ''According to my training data, ROS 2 was made in 2010.''
               ''ROS 2 is a robotics framework.'') = 1"
    by code_simp
  note th = validate_confidence_and_grounding
    [of "''According to my training data, ROS 2 was made in 2010.''"
        "''ROS 2 is a robotics framework.''"]
  note imp = th [THEN conjunct2, THEN conjunct2, THEN conjunct2, THEN conjunct2,
                 THEN conjunct2, THEN conjunct2, THEN conjunct2, THEN conjunct2, THEN conjunct2]
  from imp a have g:
    "\<not> is_valid (validate_response_for_hallucinations
        ''According to my training data, ROS 2 was made in 2010.''
        ''ROS 2 is a robotics framework.'')
     \<and> ''according to my training data'' \<in> set (issues (validate_response_for_hallucinations
        ''According to my training data, ROS 2 was made in 2010.''
        ''ROS 2 is a robotics framework.''))"
    by (rule mp)
  from th [THEN conjunct1] have cf:
    "confidence_score (validate_response_for_hallucinations
        ''According to my training data, ROS 2 was made in 2010.''
        ''ROS 2 is a robotics framework.'') = 8106479329266893 / 9007199254740992"
    by (simp only: n confidence_for_values)
  from a g cf show ?thesis
    by (simp only: simp_thms)
qed

text \<open>
  The confidence is not always \<open>max 0 (1 - 0.1 * n)\<close>: an answer with seven of the
  patterns, validated against the empty context, has seven issues and the confidence
  0.29999999999999993, which is the double below the one nearest to 0.3.
\<close>

theorem confidence_rounding_counterexample:
  "length (issues (validate_response_for_hallucinations
      ''probably perhaps maybe typically usually often elsewhere'' '''')) = 7
   \<and> confidence_score (validate_response_for_hallucinations
      ''probably perhaps maybe typically usually often elsewhere'' '''')
     = 2702159776422297 / 9007199254740992
   \<and> confidence_score (validate_response_for_hallucinations
      ''probably perhaps maybe typically usually often elsewhere'' '''')
     \<noteq> max 0 (1 - (1 / 10) * 7)
   \<and> round_double (3 / 10) = 5404319552844595 / 18014398509481984
   \<and> confidence_score (validate_response_for_hallucinations
      ''probably perhaps maybe typically usually often elsewhere'' '''')
     \<noteq> round_double (max 0 (1 - (1 / 10) * 7))"
proof -
  have i: "length (issues (validate_response_for_hallucinations
      ''probably perhaps maybe typically usually often elsewhere'' '''')) = 7"
    by code_simp
  have c: "confidence_score (validate_response_for_hallucinations
      ''probably perhaps maybe typically usually often elsewhere'' '''')
     = 2702159776422297 / 9007199254740992"
    by (simp only: validate_confidence i confidence_for_values)
  have r: "round_double (3 / 10) = 5404319552844595 / 18014398509481984"
    by code_simp
  have m: "max 0 (1 - (1 / 10) * 7) = (3 / 10 :: rat)"
    by simp
  show ?thesis
    by (simp only: i c m r) simp
qed

text \<open>
  C10. For an answer that matches none of the fixed patterns and the empty context, the
  loop over the sentences is not entered: the report is the initial one, valid, nothing
  detected, no issues, confidence 1.
\<close>

theorem validate_empty_context_passes:
  assumes "\<forall>p \<in> set hallucination_patterns. \<not> is_substring p (lower r)"
  shows "validate_response_for_hallucinations r [] =
           \<lparr> is_valid = True, hallucination_detected = False, issues = [],
             confidence_score = 1 \<rparr>"
proof -
  from assms have "detect_patterns (lower r) = []"
    by (simp add: detect_patterns_def filter_empty_conv)
  then show ?thesis
    by (simp add: validate_response_for_hallucinations_def Let_def confidence_for_values)
qed

text \<open>
  An answer of one long sentence without any pattern: it passes with the empty context,
  although the grounding pass flags it as soon as a context without its words is given.
\<close>

theorem validate_empty_context_passes_witness:
  "list_all (\<lambda>p. \<not> is_substring p (lower ''The robot framework was first released by some large company in 2010.''))
      hallucination_patterns
   \<and> validate_response_for_hallucinations
        ''The robot framework was first released by some large company in 2010.'' [] =
           \<lparr> is_valid = True, hallucination_detected = False, issues = [],
             confidence_score = 1 \<rparr>
   \<and> unsupported_sentences
        ''The robot framework was first released by some large company in 2010.'' ''ROS'' \<noteq> []"
proof -
  have a: "list_all (\<lambda>p. \<not> is_substring p (lower ''The robot framework was first released by some large company in 2010.''))
      hallucination_patterns"
    by code_simp
  then have a': "\<forall>p \<in> set hallucination_patterns.
      \<not> is_substring p (lower ''The robot framework was first released by some large company in 2010.'')"
    by (simp only: list_all_iff)
  have b: "unsupported_sentences
        ''The robot framework was first released by some large company in 2010.'' ''ROS'' \<noteq> []"
    by code_simp
  from a b validate_empty_context_passes [OF a'] show ?thesis
    by (intro conjI)
qed

text \<open>
  C3, as amended. When the context is empty, or the refined answer is empty, shares no
  word with the context, or has a word-set overlap ratio below 0.3, \<open>refine_response\<close>
  discards the refinement and returns the canonical \<open>INSUFFICIENT_CONTEXT\<close> message of the
  refusal table, never the partially cleaned answer.
\<close>

theorem refine_ungrounded_refuses:
  assumes "ctx = [] \<or> refined r = []
           \<or> set (split_ws (lower (refined r))) \<inter> set (split_ws (lower ctx)) = {}
           \<or> real (card (set (split_ws (lower (refined r))) \<inter> set (split_ws (lower ctx))))
               / real (card (set (split_ws (lower (refined r))))) < 3 / 10"
  shows "refine_response r ctx = get_refusal_message INSUFFICIENT_CONTEXT None"
proof -
  have "\<not> response_is_contextually_valid (refined r) ctx"
    using assms
    by (auto simp add: response_is_contextually_valid_def Let_def)
  then show ?thesis
    by (simp add: refine_response_def Let_def)
qed

text \<open>
  An answer of four words of which one occurs in the context: the ratio is 1/4.
\<close>

theorem refine_ungrounded_refuses_witness:
  "refined ''alpha beta gamma delta'' = ''alpha beta gamma delta''
   \<and> card (set (split_ws (lower ''alpha beta gamma delta'')) \<inter> set (split_ws (lower ''alpha''))) = 1
   \<and> card (set (split_ws (lower ''alpha beta gamma delta''))) = 4
   \<and> refine_response ''alpha beta gamma delta'' ''alpha'' =
       get_refusal_message INSUFFICIENT_CONTEXT None"
proof -
  have r: "refined ''alpha beta gamma delta'' = ''alpha beta gamma delta''"
    by code_simp
  have c1: "card (set (split_ws (lower ''alpha beta gamma delta'')) \<inter> set (split_ws (lower ''alpha''))) = 1"
    by code_simp
  have c4: "card (set (split_ws (lower ''alpha beta gamma delta''))) = 4"
    by code_simp
  have ratio: "real (card (set (split_ws (lower (refined ''alpha beta gamma delta'')))
                      \<inter> set (split_ws (lower ''alpha''))))
               / real (card (set (split_ws (lower (refined ''alpha beta gamma delta''))))) < 3 / 10"
    by (simp add: r c1 c4)
  then have h: "''alpha'' = [] \<or> refined ''alpha beta gamma delta'' = []
           \<or> set (split_ws (lower (refined ''alpha beta gamma delta''))) \<inter> set (split_ws (lower ''alpha'')) = {}
           \<or> real (card (set (split_ws (lower (refined ''alpha beta gamma delta'')))
                      \<inter> set (split_ws (lower ''alpha''))))
               / real (card (set (split_ws (lower (refined ''alpha beta gamma delta''))))) < 3 / 10"
    by (intro disjI2)
  from r c1 c4 refine_ungrounded_refuses [OF h] show ?thesis
    by (intro conjI)
qed

text \<open>
  The message returned is the one of \<open>INSUFFICIENT_CONTEXT\<close>, which differs from the one
  of \<open>HALLUCINATION_PREVENTION\<close>: here the only sentence holds the pattern \<open>probably\<close>,
  so the refined answer is empty.
\<close>

theorem refine_refusal_message_counterexample:
  "refined ''Probably yes'' = []
   \<and> refine_response ''Probably yes'' ''the'' = refusal_messages INSUFFICIENT_CONTEXT
   \<and> refine_response ''Probably yes'' ''the''
       \<noteq> get_refusal_message HALLUCINATION_PREVENTION None"
proof -
  have a: "refined ''Probably yes'' = []"
    by code_simp
  have b: "refine_response ''Probably yes'' ''the'' = refusal_messages INSUFFICIENT_CONTEXT"
    by code_simp
  have c: "refusal_messages INSUFFICIENT_CONTEXT \<noteq> get_refusal_message HALLUCINATION_PREVENTION None"
    by (simp add: get_refusal_message_def)
  from a b c show ?thesis
    by (simp only: simp_thms not_False_eq_True)
qed

end
